theory Spec2Isabelle
  imports Main
begin

section \<open>Strings and URLs\<close>

text \<open>
  JavaScript strings are modelled as \<^typ>\<open>string\<close>. A value that may be
  \<^verbatim>\<open>undefined\<close> is an \<^typ>\<open>'a option\<close>; a string is truthy when it
  is defined and not empty.
\<close>

definition truthy :: "string option \<Rightarrow> bool" where
  "truthy v = (case v of None \<Rightarrow> False | Some s \<Rightarrow> s \<noteq> [])"

text \<open>String concatenation with a value that may be undefined: \<^verbatim>\<open>undefined + '/'\<close>
  is \<^verbatim>\<open>'undefined/'\<close>.\<close>

definition js_string :: "string option \<Rightarrow> string" where
  "js_string v = (case v of None \<Rightarrow> ''undefined'' | Some s \<Rightarrow> s)"

text \<open>
  \<^verbatim>\<open>var reProto = /^https?:\/\//i;\<close> (line 163). \<open>ieq lo up c\<close> is the
  case-insensitive match of one letter.
\<close>

definition ieq :: "char \<Rightarrow> char \<Rightarrow> char \<Rightarrow> bool" where
  "ieq lo up c = (c = lo \<or> c = up)"

fun reProto :: "string \<Rightarrow> bool" where
  "reProto (c1 # c2 # c3 # c4 # rest) =
     (ieq CHR ''h'' CHR ''H'' c1 \<and> ieq CHR ''t'' CHR ''T'' c2 \<and>
      ieq CHR ''t'' CHR ''T'' c3 \<and> ieq CHR ''p'' CHR ''P'' c4 \<and>
      (take 3 rest = ''://'' \<or>
       (case rest of [] \<Rightarrow> False
        | c5 # rest' \<Rightarrow> ieq CHR ''s'' CHR ''S'' c5 \<and> take 3 rest' = ''://'')))"
| "reProto _ = False"

text \<open>
  Modelled from the spec: \<^verbatim>\<open>urljoin\<close> is the external package
  \<^verbatim>\<open>url-join\<close> (line 10), which is not under \<^verbatim>\<open>src/\<close>. The spec
  describes it as joining hostname and path with exactly one separating slash and no
  double slashes: the slashes ending the first part and the slashes starting the second
  are dropped, and one slash is put between them.
\<close>

definition strip_leading :: "string \<Rightarrow> string" where
  "strip_leading s = dropWhile (\<lambda>c. c = CHR ''/'') s"

definition strip_trailing :: "string \<Rightarrow> string" where
  "strip_trailing s = rev (dropWhile (\<lambda>c. c = CHR ''/'') (rev s))"

definition urljoin :: "string \<Rightarrow> string \<Rightarrow> string" where
  "urljoin a b = strip_trailing a @ ''/'' @ strip_leading b"

section \<open>Entries and the store of sub-records\<close>

text \<open>
  An element of \<^verbatim>\<open>urls\<close> is a string or an object with a \<^verbatim>\<open>url\<close>
  property. The objects under \<^verbatim>\<open>img\<close> and \<^verbatim>\<open>links\<close> are shared
  between the caller's entry and the copy that \<^verbatim>\<open>toString\<close> makes with
  \<^verbatim>\<open>Object.assign\<close> (a shallow copy), and \<^verbatim>\<open>toString\<close> assigns to
  their \<^verbatim>\<open>url\<close> property. They therefore live in an explicit store and are
  referred to by address. The top-level entry object is never assigned to by the code
  (only its copy \<^verbatim>\<open>smi\<close> is), and the arrays are never changed, so both are
  values.
\<close>

type_synonym addr = nat

record subrecord =
  sub_url :: string
  sub_props :: "(string \<times> string) list"

text \<open>The store: the object at address \<open>a\<close> is \<open>h ! a\<close>. The store holds
  the objects that exist when \<^verbatim>\<open>toString\<close> is called; an address outside it
  stands for an array element that is \<^verbatim>\<open>undefined\<close>: reading its
  \<^verbatim>\<open>url\<close> raises a TypeError.\<close>

type_synonym store = "subrecord list"

text \<open>The value of \<^verbatim>\<open>img\<close>: a string, an object, or an array of objects.
  A single object \<open>ImgObj a\<close> is an object of the store; an address outside the
  store occurs as an element of an array only.
  \<open>ImgNew r\<close> is the one-element array that line 209 makes,
  \<^verbatim>\<open>[{url: smi.img}]\<close>: its object \<open>r\<close> is new, only the copy
  \<^verbatim>\<open>smi\<close> refers to it, and it is therefore a value and not an address of
  the store.\<close>

datatype img_value = ImgStr string | ImgObj addr | ImgArr "addr list" | ImgNew subrecord

record item =
  url :: string
  img :: "img_value option"
  links :: "addr list option"
  props :: "(string \<times> string) list"

datatype entry = Str string | Obj item

datatype error = TypeError | RangeError | UndefinedTargetFolder | SystemError | ItemError

text \<open>\<^verbatim>\<open>if (smi.img)\<close>: an empty string is falsy, objects and arrays are truthy.\<close>

fun img_truthy :: "img_value \<Rightarrow> bool" where
  "img_truthy (ImgStr s) = (s \<noteq> [])"
| "img_truthy (ImgObj a) = True"
| "img_truthy (ImgArr as) = True"
| "img_truthy (ImgNew r) = True"

section \<open>Normalization of an entry (Sitemap.prototype.toString, lines 196-229)\<close>

text \<open>Line 199: a string becomes \<^verbatim>\<open>{url: elem}\<close>, an object is copied.\<close>

fun to_smi :: "entry \<Rightarrow> item" where
  "to_smi (Str u) = \<lparr>url = u, img = None, links = None, props = []\<rparr>"
| "to_smi (Obj it) = it"

text \<open>
  An exception leaves the assignments made before it in place: the error of a
  function that changes the store comes with the store at the moment of the raise.

  The body of the two \<^verbatim>\<open>forEach\<close> callbacks (lines 216-220 and 223-227):
  \<^verbatim>\<open>if (!reProto.test(img.url)) img.url = urljoin(self.hostname, img.url)\<close>,
  an assignment to the shared object.\<close>

definition join_url :: "string \<Rightarrow> addr \<Rightarrow> store \<Rightarrow> (error \<times> store) + store" where
  "join_url host a h =
     (if a < length h then
        (if \<not> reProto (sub_url (h ! a))
         then Inr (h[a := (h ! a)\<lparr>sub_url := urljoin host (sub_url (h ! a))\<rparr>])
         else Inr h)
      else Inl (TypeError, h))"

fun join_all :: "string \<Rightarrow> addr list \<Rightarrow> store \<Rightarrow> (error \<times> store) + store" where
  "join_all host [] h = Inr h"
| "join_all host (a # as) h =
     (case join_url host a h of Inl e \<Rightarrow> Inl e | Inr h' \<Rightarrow> join_all host as h')"

text \<open>Lines 207-214. A string is replaced by a one-element array holding a new
  object, an object by a one-element array holding that same object; an array stays
  as it is.\<close>

definition promote_img :: "img_value \<Rightarrow> img_value" where
  "promote_img v =
     (case v of
        ImgStr s \<Rightarrow> ImgNew \<lparr>sub_url = s, sub_props = []\<rparr>
      | ImgObj a \<Rightarrow> ImgArr [a]
      | ImgArr as \<Rightarrow> ImgArr as
      | ImgNew r \<Rightarrow> ImgNew r)"

text \<open>Lines 216-220, \<^verbatim>\<open>smi.img.forEach\<close>: each element of the array is
  rewritten in place, the objects of the store in the store and the new object where
  it is. A value that is not an array has no \<^verbatim>\<open>forEach\<close>.\<close>

definition join_img :: "string \<Rightarrow> img_value \<Rightarrow> store \<Rightarrow> (error \<times> store) + (img_value \<times> store)" where
  "join_img host v h =
     (case v of
        ImgArr as \<Rightarrow>
          (case join_all host as h of Inl e \<Rightarrow> Inl e | Inr h' \<Rightarrow> Inr (ImgArr as, h'))
      | ImgNew r \<Rightarrow>
          Inr (ImgNew (if \<not> reProto (sub_url r)
                       then r\<lparr>sub_url := urljoin host (sub_url r)\<rparr> else r), h)
      | ImgStr s \<Rightarrow> Inl (TypeError, h)
      | ImgObj a \<Rightarrow> Inl (TypeError, h))"

text \<open>Lines 206-221.\<close>

definition normalize_img :: "string \<Rightarrow> item \<Rightarrow> store \<Rightarrow> (error \<times> store) + (item \<times> store)" where
  "normalize_img host smi h =
     (case img smi of
        None \<Rightarrow> Inr (smi, h)
      | Some v \<Rightarrow>
          if img_truthy v then
            (case join_img host (promote_img v) h of
               Inl e \<Rightarrow> Inl e
             | Inr (v', h') \<Rightarrow> Inr (smi\<lparr>img := Some v'\<rparr>, h'))
          else Inr (smi, h))"

text \<open>Lines 222-228.\<close>

definition normalize_links :: "string \<Rightarrow> item \<Rightarrow> store \<Rightarrow> (error \<times> store) + (item \<times> store)" where
  "normalize_links host smi h =
     (case links smi of
        None \<Rightarrow> Inr (smi, h)
      | Some ls \<Rightarrow>
          (case join_all host ls h of Inl e \<Rightarrow> Inl e | Inr h' \<Rightarrow> Inr (smi, h')))"

text \<open>Lines 203-205, the primary URL, on the copy.\<close>

definition normalize_url :: "string \<Rightarrow> item \<Rightarrow> item" where
  "normalize_url host smi =
     (if \<not> reProto (url smi) then smi\<lparr>url := urljoin host (url smi)\<rparr> else smi)"

text \<open>Lines 199-229: everything after line 199 is guarded by
  \<^verbatim>\<open>if (self.hostname)\<close>.\<close>

definition normalize :: "string option \<Rightarrow> entry \<Rightarrow> store \<Rightarrow> (error \<times> store) + (item \<times> store)" where
  "normalize hn elem h =
     (if truthy hn then
        (case normalize_img (js_string hn) (normalize_url (js_string hn) (to_smi elem)) h of
           Inl e \<Rightarrow> Inl e
         | Inr (smi, h1) \<Rightarrow> normalize_links (js_string hn) smi h1)
      else Inr (to_smi elem, h))"

text \<open>The addresses that an entry refers to, under \<open>img\<close> and under
  \<open>links\<close>.\<close>

fun img_addrs :: "img_value \<Rightarrow> addr list" where
  "img_addrs (ImgStr s) = []"
| "img_addrs (ImgObj a) = [a]"
| "img_addrs (ImgArr as) = as"
| "img_addrs (ImgNew r) = []"

definition entry_addrs :: "entry \<Rightarrow> addr list" where
  "entry_addrs elem =
     (case img (to_smi elem) of None \<Rightarrow> [] | Some v \<Rightarrow> img_addrs v) @
     (case links (to_smi elem) of None \<Rightarrow> [] | Some ls \<Rightarrow> ls)"

text \<open>The rule that lines 203-205 apply to the primary url, and lines 217-219 and
  224-226 to the url of a sub-record, as a function on the url: a url that matches
  \<open>reProto\<close> is kept, any other is joined to the hostname.\<close>

definition primary_rule :: "string \<Rightarrow> string \<Rightarrow> string" where
  "primary_rule host u = (if \<not> reProto u then urljoin host u else u)"

section \<open>The Sitemap object\<close>

text \<open>The fields that the constructor (lines 45-74) sets. \<^verbatim>\<open>cacheSetTimestamp\<close>
  is undefined until \<^verbatim>\<open>setCache\<close> runs. Times are milliseconds, as
  \<^verbatim>\<open>Date.now()\<close> returns them. The XML tree \<^verbatim>\<open>root\<close> is kept
  beside this record (see \<open>Sitemap_root\<close> below).\<close>

record sitemap =
  limit :: nat
  hostname :: "string option"
  urls :: "entry list"
  cacheResetPeriod :: int
  cache :: string
  cacheSetTimestamp :: "int option"
  xslUrl :: "string option"
  xmlNs :: "string option"

text \<open>The \<^verbatim>\<open>urls\<close> argument: undefined, one entry, or an array.\<close>

datatype urls_arg = NoUrls | OneUrl entry | UrlArray "entry list"

fun urls_truthy :: "urls_arg \<Rightarrow> bool" where
  "urls_truthy NoUrls = False"
| "urls_truthy (OneUrl (Str s)) = (s \<noteq> [])"
| "urls_truthy (OneUrl (Obj it)) = True"
| "urls_truthy (UrlArray es) = True"

text \<open>Line 58: \<^verbatim>\<open>if (urls) this.urls = Array.isArray(urls) ? Array.from(urls) : [urls]\<close>.\<close>

fun copy_urls :: "urls_arg \<Rightarrow> entry list" where
  "copy_urls (UrlArray es) = es"
| "copy_urls (OneUrl e) = (if urls_truthy (OneUrl e) then [e] else [])"
| "copy_urls NoUrls = []"

text \<open>\<^verbatim>\<open>String.prototype.split\<close> with a one-character separator.\<close>

fun split_on :: "char \<Rightarrow> string \<Rightarrow> string list" where
  "split_on c [] = [[]]"
| "split_on c (x # xs) =
     (if x = c then [] # split_on c xs
      else (case split_on c xs of [] \<Rightarrow> [[x]] | y # ys \<Rightarrow> (x # y) # ys))"

text \<open>Lines 67-73: for an attribute without \<^verbatim>\<open>=\<close> the value \<^verbatim>\<open>v\<close>
  is undefined and \<^verbatim>\<open>v.replace\<close> raises a TypeError.\<close>

definition xmlNs_ok :: "string option \<Rightarrow> bool" where
  "xmlNs_ok ns =
     (if truthy ns then list_all (\<lambda>attr. CHR ''='' \<in> set attr) (split_on CHR '' '' (js_string ns))
      else True)"

definition Sitemap ::
  "urls_arg \<Rightarrow> string option \<Rightarrow> int option \<Rightarrow> string option \<Rightarrow> string option \<Rightarrow> error + sitemap"
where
  "Sitemap us hn cacheTime xsl ns =
     (if xmlNs_ok ns then
        Inr \<lparr>limit = 50000, hostname = hn, urls = copy_urls us,
             cacheResetPeriod = (case cacheTime of None \<Rightarrow> 0 | Some t \<Rightarrow> t),
             cache = [], cacheSetTimestamp = None, xslUrl = xsl, xmlNs = ns\<rparr>
      else Inl TypeError)"

text \<open>Lines 79-81.\<close>

definition clearCache :: "sitemap \<Rightarrow> sitemap" where
  "clearCache s = s\<lparr>cache := []\<rparr>"

text \<open>Lines 86-90. \<open>now\<close> is the value of \<^verbatim>\<open>Date.now()\<close>. A number is
  truthy when it is not zero, a string when it is not empty; a comparison with an
  undefined timestamp is false.\<close>

definition isCacheValid :: "sitemap \<Rightarrow> int \<Rightarrow> bool" where
  "isCacheValid s now =
     (cacheResetPeriod s \<noteq> 0 \<and> cache s \<noteq> [] \<and>
      (case cacheSetTimestamp s of
         None \<Rightarrow> False
       | Some ts \<Rightarrow> ts + cacheResetPeriod s \<ge> now))"

text \<open>Lines 95-99.\<close>

definition setCache :: "sitemap \<Rightarrow> string \<Rightarrow> int \<Rightarrow> string \<times> sitemap" where
  "setCache s newCache now = (newCache, s\<lparr>cache := newCache, cacheSetTimestamp := Some now\<rparr>)"

text \<open>Lines 105-107: \<^verbatim>\<open>push\<close> returns the new length.\<close>

definition add :: "entry \<Rightarrow> sitemap \<Rightarrow> nat \<times> sitemap" where
  "add e s = (length (urls s) + 1, s\<lparr>urls := urls s @ [e]\<rparr>)"

text \<open>Lines 113-143. The key is the argument, or its \<^verbatim>\<open>url\<close>; the first loop
  collects the indices of the matching elements; the second calls
  \<^verbatim>\<open>self.urls.splice(elem, 1)\<close> for each collected index in turn, on the array
  as the earlier calls left it. \<^verbatim>\<open>splice\<close> past the end removes nothing.\<close>

fun entry_url :: "entry \<Rightarrow> string" where
  "entry_url (Str u) = u"
| "entry_url (Obj it) = url it"

definition index_to_remove :: "string \<Rightarrow> entry list \<Rightarrow> nat list" where
  "index_to_remove key es = filter (\<lambda>i. entry_url (es ! i) = key) [0..<length es]"

definition splice1 :: "nat \<Rightarrow> 'a list \<Rightarrow> 'a list" where
  "splice1 i xs = take i xs @ drop (Suc i) xs"

definition del :: "entry \<Rightarrow> sitemap \<Rightarrow> nat \<times> sitemap" where
  "del u s =
     (let key = entry_url u;
          idx = index_to_remove key (urls s)
      in (length idx, s\<lparr>urls := foldl (\<lambda>xs i. splice1 i xs) (urls s) idx\<rparr>))"

section \<open>Rendering (Sitemap.prototype.toString, lines 169-235)\<close>

text \<open>
  Modelled from the spec: \<^verbatim>\<open>this.root\<close> is an element of the external
  package \<^verbatim>\<open>xmlbuilder\<close>, which is not under \<^verbatim>\<open>src/\<close>. The model keeps
  what the code reads and writes of it: the attributes and the children of the root
  element, which lines 171-176 test for their length and replace by \<^verbatim>\<open>[]\<close>,
  and the processing instructions placed before the root element, each in the order
  of the calls. \<open>att\<close> declares an attribute, \<open>instructionBefore\<close> places an
  instruction before the root. The tree is kept beside the record of the other
  fields.
\<close>

record xml_root =
  attributes :: "(string \<times> string) list"
  children :: "string list"
  instructions :: "(string \<times> string) list"

definition att :: "string \<Rightarrow> string \<Rightarrow> xml_root \<Rightarrow> xml_root" where
  "att k v r = r\<lparr>attributes := attributes r @ [(k, v)]\<rparr>"

definition instructionBefore :: "string \<Rightarrow> string \<Rightarrow> xml_root \<Rightarrow> xml_root" where
  "instructionBefore target v r = r\<lparr>instructions := instructions r @ [(target, v)]\<rparr>"

text \<open>Line 71, \<^verbatim>\<open>v.replace(/^['"]|['"]$/g, '')\<close>: one quote is dropped at the
  start and one at the end.\<close>

definition is_quote :: "char \<Rightarrow> bool" where
  "is_quote c = (c = CHR 0x27 \<or> c = CHR 0x22)"

definition unquote :: "string \<Rightarrow> string" where
  "unquote v =
     (let v1 = (case v of [] \<Rightarrow> [] | c # cs \<Rightarrow> if is_quote c then cs else v)
      in case rev v1 of [] \<Rightarrow> [] | c # cs \<Rightarrow> if is_quote c then rev cs else v1)"

text \<open>Lines 66-73, the root that the constructor makes (for a namespace string that
  passes \<open>xmlNs_ok\<close>; \<^verbatim>\<open>[k, v] = attr.split('=')\<close> takes the first two
  parts).\<close>

definition Sitemap_root :: "string option \<Rightarrow> xml_root" where
  "Sitemap_root ns =
     (if truthy ns then
        fold (\<lambda>attr r. case split_on CHR ''='' attr of
                          k # v # rest \<Rightarrow> att k (unquote v) r
                        | _ \<Rightarrow> r)
          (split_on CHR '' '' (js_string ns))
          \<lparr>attributes = [], children = [], instructions = []\<rparr>
      else \<lparr>attributes = [], children = [], instructions = []\<rparr>)"

text \<open>Lines 178-183.\<close>

definition default_namespaces :: "(string \<times> string) list" where
  "default_namespaces =
     [(''xmlns'', ''http://www.sitemaps.org/schemas/sitemap/0.9''),
      (''xmlns:news'', ''http://www.google.com/schemas/sitemap-news/0.9''),
      (''xmlns:xhtml'', ''http://www.w3.org/1999/xhtml''),
      (''xmlns:mobile'', ''http://www.google.com/schemas/sitemap-mobile/1.0''),
      (''xmlns:image'', ''http://www.google.com/schemas/sitemap-image/1.1''),
      (''xmlns:video'', ''http://www.google.com/schemas/sitemap-video/1.1'')]"

text \<open>Lines 171-188, which run on every call, before the cache is tested.\<close>

definition prepare_root :: "sitemap \<Rightarrow> xml_root \<Rightarrow> xml_root" where
  \<open>prepare_root s r =
     (let r1 = (if attributes r \<noteq> [] then r\<lparr>attributes := []\<rparr> else r);
          r2 = (if children r1 \<noteq> [] then r1\<lparr>children := []\<rparr> else r1);
          r3 = (if \<not> truthy (xmlNs s)
                then fold (\<lambda>(k, v). att k v) default_namespaces r2 else r2)
      in if truthy (xslUrl s)
         then instructionBefore ''xml-stylesheet''
                (''type="text/xsl" href="'' @ js_string (xslUrl s) @ ''"'') r3
         else r3)\<close>

text \<open>
  \<^verbatim>\<open>SitemapItem\<close> (lib/sitemap-item.js), the rendering of
  \<^verbatim>\<open>xmlbuilder\<close> and \<^verbatim>\<open>zlib\<close> are not under \<^verbatim>\<open>src/\<close>; they are
  parameters of the model. \<open>buildXML h smi\<close> is the element that
  \<^verbatim>\<open>new SitemapItem(smi).buildXML()\<close> adds to the root (or the exception it
  raises), \<open>root_end r\<close> is the string that \<^verbatim>\<open>this.root.end()\<close> returns, and
  \<open>gzipSync\<close> is \<^verbatim>\<open>zlib.gzipSync\<close>.
\<close>

record env =
  buildXML :: "store \<Rightarrow> item \<Rightarrow> error + string"
  root_end :: "xml_root \<Rightarrow> string"
  gzipSync :: "string \<Rightarrow> string"

text \<open>The loop of lines 196-232, with the root and the store passed from one entry
  to the next.\<close>

fun build_items ::
  "env \<Rightarrow> string option \<Rightarrow> entry list \<Rightarrow> xml_root \<Rightarrow> store \<Rightarrow>
   (error \<times> xml_root \<times> store) + (xml_root \<times> store)" where
  "build_items ev hn [] r h = Inr (r, h)"
| "build_items ev hn (e # es) r h =
     (case normalize hn e h of
        Inl (er, h1) \<Rightarrow> Inl (er, r, h1)
      | Inr (smi, h1) \<Rightarrow>
          (case buildXML ev h1 smi of
             Inl er \<Rightarrow> Inl (er, r, h1)
           | Inr x \<Rightarrow> build_items ev hn es (r\<lparr>children := children r @ [x]\<rparr>) h1))"

text \<open>\<open>now\<close> is the clock read by \<^verbatim>\<open>isCacheValid\<close> (line 190), \<open>now'\<close>
  the clock read by \<^verbatim>\<open>setCache\<close> (line 234). The result is the returned string
  (or the exception), the object, its root and the store.\<close>

definition toString ::
  "env \<Rightarrow> sitemap \<Rightarrow> xml_root \<Rightarrow> store \<Rightarrow> int \<Rightarrow> int \<Rightarrow>
   (error \<times> sitemap \<times> xml_root \<times> store) + (string \<times> sitemap \<times> xml_root \<times> store)" where
  "toString ev s r h now now' =
     (if isCacheValid s now then Inr (cache s, s, prepare_root s r, h)
      else
        (case build_items ev (hostname s) (urls s) (prepare_root s r) h of
           Inl (er, r', h') \<Rightarrow> Inl (er, s, r', h')
         | Inr (r', h') \<Rightarrow>
             (case setCache s (root_end ev r') now' of
                (out, s') \<Rightarrow> Inr (out, s', r', h'))))"

text \<open>Lines 237-245, the synchronous form.\<close>

definition toGzip ::
  "env \<Rightarrow> sitemap \<Rightarrow> xml_root \<Rightarrow> store \<Rightarrow> int \<Rightarrow> int \<Rightarrow>
   (error \<times> sitemap \<times> xml_root \<times> store) + (string \<times> sitemap \<times> xml_root \<times> store)" where
  "toGzip ev s r h now now' =
     (case toString ev s r h now now' of
        Inl e \<Rightarrow> Inl e
      | Inr (out, s', r', h') \<Rightarrow> Inr (gzipSync ev out, s', r', h'))"

section \<open>The index document (buildSitemapIndex, lines 281-319)\<close>

record index_conf =
  conf_urls :: "string list"
  conf_xslUrl :: "string option"
  conf_xmlNs :: "string option"
  conf_lastmodISO :: "string option"
  conf_lastmodrealtime :: bool
  conf_lastmod :: "string option"

text \<open>\<^verbatim>\<open>Array.prototype.join\<close>.\<close>

fun join_with :: "string \<Rightarrow> string list \<Rightarrow> string" where
  "join_with sep [] = []"
| "join_with sep [x] = x"
| "join_with sep (x # y # ys) = x @ sep @ join_with sep (y # ys)"

text \<open>Lines 298-304. \<open>now_iso\<close> is \<^verbatim>\<open>new Date().toISOString()\<close>; \<open>to_iso d\<close>
  is \<^verbatim>\<open>new Date(d).toISOString()\<close>, which raises a RangeError for an invalid
  date (\<open>None\<close>).\<close>

definition index_lastmod ::
  "string \<Rightarrow> (string \<Rightarrow> string option) \<Rightarrow> index_conf \<Rightarrow> error + string option" where
  "index_lastmod now_iso to_iso conf =
     (if truthy (conf_lastmodISO conf) then Inr (conf_lastmodISO conf)
      else if conf_lastmodrealtime conf then Inr (Some now_iso)
      else if truthy (conf_lastmod conf) then
        (case to_iso (js_string (conf_lastmod conf)) of
           None \<Rightarrow> Inl RangeError
         | Some d \<Rightarrow> Inr (Some d))
      else Inr None)"

text \<open>Lines 285-296, the lines pushed before the loop.\<close>

definition index_head :: "index_conf \<Rightarrow> string list" where
  \<open>index_head conf =
     [''<?xml version="1.0" encoding="UTF-8"?>''] @
     (if truthy (conf_xslUrl conf)
      then [''<?xml-stylesheet type="text/xsl" href="'' @ js_string (conf_xslUrl conf) @ ''"?>'']
      else []) @
     [if \<not> truthy (conf_xmlNs conf)
      then ''<sitemapindex xmlns="http://www.sitemaps.org/schemas/sitemap/0.9" '' @
           ''xmlns:mobile="http://www.google.com/schemas/sitemap-mobile/1.0" '' @
           ''xmlns:image="http://www.google.com/schemas/sitemap-image/1.1" '' @
           ''xmlns:video="http://www.google.com/schemas/sitemap-video/1.1">''
      else ''<sitemapindex '' @ js_string (conf_xmlNs conf) @ ''>'']\<close>

text \<open>Lines 307-314, the lines pushed for one url.\<close>

definition index_entry :: "string option \<Rightarrow> string \<Rightarrow> string list" where
  "index_entry lastmod u =
     [''<sitemap>'', ''<loc>'' @ u @ ''</loc>''] @
     (if truthy lastmod then [''<lastmod>'' @ js_string lastmod @ ''</lastmod>''] else []) @
     [''</sitemap>'']"

text \<open>The array \<^verbatim>\<open>xml\<close> when line 318 is reached.\<close>

definition index_xml :: "string option \<Rightarrow> index_conf \<Rightarrow> string list" where
  "index_xml lastmod conf =
     index_head conf @ concat (map (index_entry lastmod) (conf_urls conf)) @ [''</sitemapindex>'']"

definition buildSitemapIndex ::
  "string \<Rightarrow> (string \<Rightarrow> string option) \<Rightarrow> index_conf \<Rightarrow> error + string" where
  "buildSitemapIndex now_iso to_iso conf =
     (case index_lastmod now_iso to_iso conf of
        Inl er \<Rightarrow> Inl er
      | Inr lastmod \<Rightarrow> Inr (join_with [CHR 0x0A] (index_xml lastmod conf)))"

section \<open>The sitemap index (SitemapIndex, lines 333-421)\<close>

text \<open>
  Modelled from the spec: \<^verbatim>\<open>chunk\<close> is \<^verbatim>\<open>lodash/chunk\<close> (line 14), an
  external package that is not under \<^verbatim>\<open>src/\<close>. The spec: split the list into
  contiguous chunks of size \<open>sz\<close>, the last chunk may be smaller, chunk order is
  input order, an empty input yields zero chunks. A size below one yields no chunk.
\<close>

function chunk :: "'a list \<Rightarrow> nat \<Rightarrow> 'a list list" where
  "chunk xs sz =
     (if xs = [] \<or> sz < 1 then [] else take sz xs # chunk (drop sz xs) sz)"
  by pat_completeness auto
termination
  by (relation "measure (\<lambda>(xs, sz). length xs)") auto

text \<open>The decimal digits of a counter, as \<^verbatim>\<open>'-' + self.sitemapId++\<close> writes it.
  \<open>digit\<close> is only applied to numbers below ten.\<close>

definition digit :: "nat \<Rightarrow> char" where
  "digit d = ''0123456789'' ! d"

fun string_of_nat :: "nat \<Rightarrow> string" where
  "string_of_nat n =
     (if n < 10 then [digit n] else string_of_nat (n div 10) @ [digit (n mod 10)])"

text \<open>The file system as \<^verbatim>\<open>fs.statSync\<close> sees it: \<open>None\<close> when the call
  raises (no such path), else whether the path is a directory.\<close>

datatype stat = Directory | NotDirectory

type_synonym filesystem = "string \<Rightarrow> stat option"

text \<open>Lines 358-364.
  \<^verbatim>\<open>
  try {
    if (!fs.statSync(targetFolder).isDirectory()) {
      throw new err.UndefinedTargetFolder();
    }
  } catch (err) {
    throw new err.UndefinedTargetFolder();
  }
  \<close>
  \<open>try_body\<close> is the exception that the \<^verbatim>\<open>try\<close> block raises, if any. Inside
  \<^verbatim>\<open>catch (err)\<close> the name \<^verbatim>\<open>err\<close> is the caught object, not the module of
  line 9, so \<^verbatim>\<open>err.UndefinedTargetFolder\<close> reads a property of the caught
  object. The error that \<^verbatim>\<open>fs.statSync\<close> raises has no such property, and
  \<^verbatim>\<open>new undefined()\<close> raises a TypeError. The object raised at line 360 is an
  instance of a class of lib/errors.js, which is not under \<^verbatim>\<open>src/\<close>:
  \<open>own\<close> says whether such an instance has a constructor of its own class under the
  name \<^verbatim>\<open>UndefinedTargetFolder\<close>.\<close>

definition try_body :: "filesystem \<Rightarrow> string \<Rightarrow> error option" where
  "try_body fs tf =
     (case fs tf of
        None \<Rightarrow> Some SystemError
      | Some st \<Rightarrow> if st \<noteq> Directory then Some UndefinedTargetFolder else None)"

definition catch_clause :: "bool \<Rightarrow> error \<Rightarrow> error" where
  "catch_clause own caught =
     (if caught = UndefinedTargetFolder \<and> own then UndefinedTargetFolder else TypeError)"

definition check_target :: "bool \<Rightarrow> filesystem \<Rightarrow> string \<Rightarrow> error option" where
  "check_target own fs tf =
     (case try_body fs tf of None \<Rightarrow> None | Some caught \<Rightarrow> Some (catch_clause own caught))"

text \<open>Lines 33-35, with the fields of \<^verbatim>\<open>conf\<close> as arguments.\<close>

definition createSitemap ::
  "string option \<Rightarrow> int option \<Rightarrow> urls_arg \<Rightarrow> string option \<Rightarrow> string option \<Rightarrow> error + sitemap"
where
  "createSitemap hn cacheTime us xsl ns = Sitemap us hn cacheTime xsl ns"

text \<open>The fields of the SitemapIndex object. \<open>callback\<close> is
  \<^verbatim>\<open>typeof self.callback === 'function'\<close>.\<close>

record sitemap_index =
  ix_hostname :: "string option"
  sitemapName :: string
  sitemapSize :: nat
  ix_xslUrl :: "string option"
  sitemapId :: nat
  sitemaps :: "string list"
  targetFolder :: string
  ix_urls :: "entry list"
  chunks :: "entry list list"
  callback :: bool

text \<open>What the \<^verbatim>\<open>open\<close> listener of a stream writes: the rendering of the
  Sitemap of a chunk with its root (lines 386-395), or the index document (line 414).\<close>

datatype payload = ChunkDoc sitemap xml_root | IndexDoc string

text \<open>Lines 369-372: \<^verbatim>\<open>self.urls = urls || []\<close>, wrapped when it is not an
  array.\<close>

fun index_urls :: "urls_arg \<Rightarrow> entry list" where
  "index_urls (UrlArray es) = es"
| "index_urls (OneUrl e) = (if urls_truthy (OneUrl e) then [e] else [])"
| "index_urls NoUrls = []"

text \<open>Lines 380-403, the callback of \<^verbatim>\<open>self.chunks.forEach\<close>: the filename, the
  Sitemap of the chunk (\<^verbatim>\<open>self.cacheTime\<close> is never set, so \<^verbatim>\<open>cacheTime\<close>
  is undefined) and the stream \<^verbatim>\<open>fs.createWriteStream(targetFolder + '/' + filename)\<close>
  with its listener. The streams are listed in the order of their creation.\<close>

fun each_chunk ::
  "bool \<Rightarrow> string \<Rightarrow> entry list list \<Rightarrow> sitemap_index \<times> (string \<times> payload) list \<Rightarrow>
   error + (sitemap_index \<times> (string \<times> payload) list)" where
  "each_chunk gz tf [] acc = Inr acc"
| "each_chunk gz tf (c # cs) (self, streams) =
     (let extension = ''.xml'' @ (if gz then ''.gz'' else []);
          filename = sitemapName self @ ''-'' @ string_of_nat (sitemapId self) @ extension;
          self' = self\<lparr>sitemapId := sitemapId self + 1, sitemaps := sitemaps self @ [filename]\<rparr>
      in case createSitemap (ix_hostname self') None (UrlArray c) (ix_xslUrl self') None of
           Inl er \<Rightarrow> Inl er
         | Inr sitemap \<Rightarrow>
             each_chunk gz tf cs
               (self', streams @ [(tf @ ''/'' @ filename, ChunkDoc sitemap (Sitemap_root None))]))"

text \<open>
  The state of the index after construction, while the streams open. \<open>streams\<close>
  are the streams in the order of their creation, each with one
  \<^verbatim>\<open>once('open', ...)\<close> listener; \<open>opened\<close> lists the streams whose listener
  has been called; \<open>written\<close> is what \<^verbatim>\<open>stream.write\<close> was given, by path, for
  the streams that were then ended, and \<open>ended\<close> lists these streams: their write
  has been issued. \<open>finished\<close> lists the streams whose write has completed (the
  stream has emitted \<^verbatim>\<open>finish\<close>). \<open>calls\<close> are the argument lists of the
  calls of \<^verbatim>\<open>self.callback\<close>; \<open>processesCount\<close> is the variable of line 378.
\<close>

record run_state =
  self :: sitemap_index
  gzip :: bool
  streams :: "(string \<times> payload) list"
  processesCount :: int
  opened :: "nat list"
  written :: "(string \<times> string) list"
  ended :: "nat list"
  finished :: "nat list"
  calls :: "(error option \<times> bool) list"
  heap :: store

text \<open>Lines 333-421, up to the return of the constructor. The configuration of
  line 408 has no last-modified field, so \<^verbatim>\<open>buildSitemapIndex\<close> does not read
  the clock there.\<close>

definition SitemapIndex ::
  "bool \<Rightarrow> filesystem \<Rightarrow> store \<Rightarrow>
   urls_arg \<Rightarrow> string \<Rightarrow> string option \<Rightarrow> int option \<Rightarrow> string option \<Rightarrow> nat \<Rightarrow>
   string option \<Rightarrow> bool \<Rightarrow> bool \<Rightarrow> error + run_state" where
  "SitemapIndex own fs h us tf hn cacheTime name sz xsl gz cb =
     (case check_target own fs tf of
        Some er \<Rightarrow> Inl er
      | None \<Rightarrow>
          (let self0 = \<lparr>ix_hostname = hn,
                        sitemapName = (case name of None \<Rightarrow> ''sitemap'' | Some n \<Rightarrow> n),
                        sitemapSize = sz, ix_xslUrl = xsl, sitemapId = 0, sitemaps = [],
                        targetFolder = tf, ix_urls = index_urls us,
                        chunks = chunk (index_urls us) sz, callback = cb\<rparr>
           in case each_chunk gz tf (chunks self0) (self0, []) of
                Inl er \<Rightarrow> Inl er
              | Inr (self1, streams1) \<Rightarrow>
                  (case buildSitemapIndex [] (\<lambda>d. None)
                          \<lparr>conf_urls = map (\<lambda>sitemap. js_string hn @ ''/'' @ sitemap) (sitemaps self1),
                           conf_xslUrl = ix_xslUrl self1, conf_xmlNs = None,
                           conf_lastmodISO = None, conf_lastmodrealtime = False,
                           conf_lastmod = None\<rparr> of
                     Inl er \<Rightarrow> Inl er
                   | Inr xmlString \<Rightarrow>
                       Inr \<lparr>self = self1, gzip = gz,
                            streams = streams1 @
                              [(tf @ ''/'' @ sitemapName self1 @ ''-index.xml'', IndexDoc xmlString)],
                            processesCount = int (length (chunks self0)) + 1,
                            opened = [], written = [], ended = [], finished = [],
                            calls = [], heap = h\<rparr>)))"

text \<open>The argument of \<^verbatim>\<open>stream.write\<close>: line 395 for a chunk, line 414 for the
  index.\<close>

definition stream_data ::
  "env \<Rightarrow> bool \<Rightarrow> payload \<Rightarrow> store \<Rightarrow> int \<Rightarrow> int \<Rightarrow> (error \<times> store) + (string \<times> store)" where
  "stream_data ev gz src h now now' =
     (case src of
        IndexDoc xmlString \<Rightarrow> Inr (xmlString, h)
      | ChunkDoc sitemap r \<Rightarrow>
          (case (if gz then toGzip ev sitemap r h now now' else toString ev sitemap r h now now') of
             Inl (er, s', r', h') \<Rightarrow> Inl (er, h')
           | Inr (out, s', r', h') \<Rightarrow> Inr (out, h')))"

text \<open>
  The event \<open>(i, now, now')\<close>: stream \<open>i\<close> emits \<^verbatim>\<open>open\<close>, with the two clock
  readings of the rendering. A listener registered with \<^verbatim>\<open>once\<close> is called for
  the first event only. The listener (lines 394-401 and 413-420) calls
  \<^verbatim>\<open>stream.write\<close> and \<^verbatim>\<open>stream.end\<close>, decrements the counter and calls
  the callback when the counter is zero and the callback is a function, all in one
  turn. When the rendering raises, the listener stops there.
\<close>

definition on_open :: "env \<Rightarrow> nat \<times> int \<times> int \<Rightarrow> run_state \<Rightarrow> run_state" where
  "on_open ev e st =
     (case e of
        (i, now, now') \<Rightarrow>
          if i < length (streams st) \<and> i \<notin> set (opened st) then
            (case stream_data ev (gzip st) (snd (streams st ! i)) (heap st) now now' of
               Inl (er, h') \<Rightarrow> st\<lparr>opened := opened st @ [i], heap := h'\<rparr>
             | Inr (d, h') \<Rightarrow>
                 st\<lparr>opened := opened st @ [i],
                    written := written st @ [(fst (streams st ! i), d)],
                    ended := ended st @ [i],
                    heap := h',
                    processesCount := processesCount st - 1,
                    calls := (if processesCount st - 1 = 0 \<and> callback (self st)
                              then calls st @ [(None, True)] else calls st)\<rparr>)
          else st)"

text \<open>The \<^verbatim>\<open>open\<close> events in the order in which they happen.\<close>

definition run :: "env \<Rightarrow> (nat \<times> int \<times> int) list \<Rightarrow> run_state \<Rightarrow> run_state" where
  "run ev es st = foldl (\<lambda>s e. on_open ev e s) st es"

text \<open>
  The write of stream \<open>i\<close> completes: the data given to \<^verbatim>\<open>stream.write\<close> has
  been handed to the file system and the stream emits \<^verbatim>\<open>finish\<close>. This
  happens in a later turn than the call of \<^verbatim>\<open>stream.end\<close>, and once. The code
  registers no listener for it (nor for \<^verbatim>\<open>close\<close> or \<^verbatim>\<open>error\<close>).
\<close>

definition on_finish :: "nat \<Rightarrow> run_state \<Rightarrow> run_state" where
  "on_finish i st =
     (if i \<in> set (ended st) \<and> i \<notin> set (finished st)
      then st\<lparr>finished := finished st @ [i]\<rparr> else st)"

datatype event = Open nat int int | Finish nat

fun step :: "env \<Rightarrow> event \<Rightarrow> run_state \<Rightarrow> run_state" where
  "step ev (Open i now now') st = on_open ev (i, now, now') st"
| "step ev (Finish i) st = on_finish i st"

text \<open>The events of the streams, openings and completions, in the order in which
  they happen.\<close>

definition run_events :: "env \<Rightarrow> event list \<Rightarrow> run_state \<Rightarrow> run_state" where
  "run_events ev es st = foldl (\<lambda>s e. step ev e s) st es"

text \<open>
  The invariant of the streams' events: no listener is called twice, what has been
  written belongs to distinct streams whose listener was called, a completed write
  was issued before, the counter is the number of streams minus the number of writes
  issued, and the callback has been called exactly when the counter is zero and the
  callback is a function.
\<close>

definition counted :: "run_state \<Rightarrow> bool" where
  "counted st =
     (distinct (opened st) \<and> set (opened st) \<subseteq> {..<length (streams st)} \<and>
      (\<exists>ids. distinct ids \<and> set ids \<subseteq> set (opened st) \<and>
         map fst (written st) = map (\<lambda>i. fst (streams st ! i)) ids) \<and>
      set (finished st) \<subseteq> set (ended st) \<and> set (ended st) \<subseteq> set (opened st) \<and>
      length (ended st) = length (written st) \<and>
      processesCount st = int (length (streams st)) - int (length (written st)) \<and>
      calls st = (if processesCount st = 0 \<and> callback (self st) then [(None, True)] else []))"

section \<open>Properties of the partition\<close>

text \<open>The recursive equations of \<open>chunk\<close> and \<open>string_of_nat\<close> are unfolded by
  hand only.\<close>

declare chunk.simps [simp del]

lemma chunk_Nil: "chunk [] sz = []"
  by (simp add: chunk.simps)

lemma chunk_Cons: "xs \<noteq> [] \<Longrightarrow> 0 < sz \<Longrightarrow> chunk xs sz = take sz xs # chunk (drop sz xs) sz"
  by (subst chunk.simps) simp

lemma concat_chunk: "0 < sz \<Longrightarrow> concat (chunk xs sz) = xs"
proof (induction xs sz rule: chunk.induct)
  case (1 xs sz)
  show ?case
  proof (cases "xs = []")
    case True
    then show ?thesis by (simp add: chunk_Nil)
  next
    case False
    with 1 show ?thesis by (simp add: chunk_Cons)
  qed
qed

lemma length_chunk: "0 < sz \<Longrightarrow> length (chunk xs sz) = (length xs + sz - 1) div sz"
proof (induction xs sz rule: chunk.induct)
  case (1 xs sz)
  show ?case
  proof (cases "xs = []")
    case True
    with 1(2) show ?thesis by (simp add: chunk_Nil)
  next
    case False
    then have pos: "0 < length xs" by simp
    have ih: "length (chunk (drop sz xs) sz) = (length (drop sz xs) + sz - 1) div sz"
      using 1 False by simp
    show ?thesis
    proof (cases "length xs \<le> sz")
      case True
      obtain k where k: "length xs = Suc k" using pos by (cases "length xs") auto
      with True have "k < sz" by simp
      then have "(k + sz) div sz = 1" by (simp add: div_add_self2)
      with k have "(length xs + sz - 1) div sz = 1" by simp
      with True False 1(2) show ?thesis by (simp add: chunk_Cons chunk_Nil)
    next
      case False
      then have "length xs + sz - 1 = (length xs - sz + sz - 1) + sz" using 1(2) by simp
      then have "(length xs + sz - 1) div sz = Suc ((length xs - sz + sz - 1) div sz)"
        using 1(2) by (metis div_add_self2 less_numeral_extra(3) Suc_eq_plus1)
      with ih \<open>xs \<noteq> []\<close> 1(2) show ?thesis by (simp add: chunk_Cons)
    qed
  qed
qed

lemma nth_chunk: "0 < sz \<Longrightarrow> i < length (chunk xs sz) \<Longrightarrow> chunk xs sz ! i = take sz (drop (i * sz) xs)"
proof (induction i arbitrary: xs)
  case 0
  then have "xs \<noteq> []" by (auto simp: chunk_Nil)
  with 0 show ?case by (simp add: chunk_Cons)
next
  case (Suc i)
  then have ne: "xs \<noteq> []" by (auto simp: chunk_Nil)
  with Suc have "i < length (chunk (drop sz xs) sz)" by (simp add: chunk_Cons)
  with Suc have "chunk (drop sz xs) sz ! i = take sz (drop (i * sz) (drop sz xs))" by simp
  with ne Suc(2) show ?case by (simp add: chunk_Cons add.commute)
qed


declare string_of_nat.simps [simp del]

lemma each_chunk_result:
  "each_chunk gz tf cs (slf, ss) =
     Inr (slf\<lparr>sitemapId := sitemapId slf + length cs,
              sitemaps := sitemaps slf @
                map (\<lambda>(i, c). sitemapName slf @ ''-'' @ string_of_nat i @ ''.xml'' @ (if gz then ''.gz'' else []))
                  (enumerate (sitemapId slf) cs)\<rparr>,
          ss @ map (\<lambda>(i, c).
                 (tf @ ''/'' @ sitemapName slf @ ''-'' @ string_of_nat i @ ''.xml'' @ (if gz then ''.gz'' else []),
                  ChunkDoc \<lparr>limit = 50000, hostname = ix_hostname slf, urls = c,
                            cacheResetPeriod = 0, cache = [], cacheSetTimestamp = None,
                            xslUrl = ix_xslUrl slf, xmlNs = None\<rparr> (Sitemap_root None)))
               (enumerate (sitemapId slf) cs))"
proof (induction cs arbitrary: slf ss)
  case Nil
  show ?case by simp
next
  case (Cons c cs)
  show ?case
    by (simp add: Cons.IH createSitemap_def Sitemap_def xmlNs_ok_def truthy_def Let_def)
qed

lemma index_lastmod_none:
  "index_lastmod now_iso to_iso \<lparr>conf_urls = us, conf_xslUrl = xsl, conf_xmlNs = ns,
      conf_lastmodISO = None, conf_lastmodrealtime = False, conf_lastmod = None\<rparr> = Inr None"
  by (simp add: index_lastmod_def truthy_def)

lemma SitemapIndex_result:
  assumes "fs tf = Some Directory"
  shows "SitemapIndex own fs h us tf hn cacheTime name sz xsl gz cb =
     Inr \<lparr>self = \<lparr>ix_hostname = hn,
                   sitemapName = (case name of None \<Rightarrow> ''sitemap'' | Some n \<Rightarrow> n),
                   sitemapSize = sz, ix_xslUrl = xsl,
                   sitemapId = length (chunk (index_urls us) sz),
                   sitemaps = map (\<lambda>(i, c). (case name of None \<Rightarrow> ''sitemap'' | Some n \<Rightarrow> n) @ ''-'' @
                                  string_of_nat i @ ''.xml'' @ (if gz then ''.gz'' else []))
                                (enumerate 0 (chunk (index_urls us) sz)),
                   targetFolder = tf, ix_urls = index_urls us,
                   chunks = chunk (index_urls us) sz, callback = cb\<rparr>,
          gzip = gz,
          streams =
            map (\<lambda>(i, c).
                 (tf @ ''/'' @ (case name of None \<Rightarrow> ''sitemap'' | Some n \<Rightarrow> n) @ ''-'' @
                    string_of_nat i @ ''.xml'' @ (if gz then ''.gz'' else []),
                  ChunkDoc \<lparr>limit = 50000, hostname = hn, urls = c,
                            cacheResetPeriod = 0, cache = [], cacheSetTimestamp = None,
                            xslUrl = xsl, xmlNs = None\<rparr> (Sitemap_root None)))
               (enumerate 0 (chunk (index_urls us) sz)) @
            [(tf @ ''/'' @ (case name of None \<Rightarrow> ''sitemap'' | Some n \<Rightarrow> n) @ ''-index.xml'',
              IndexDoc (join_with [CHR 0x0A]
                (index_xml None
                   \<lparr>conf_urls = map (\<lambda>sitemap. js_string hn @ ''/'' @ sitemap)
                        (map (\<lambda>(i, c). (case name of None \<Rightarrow> ''sitemap'' | Some n \<Rightarrow> n) @ ''-'' @
                                  string_of_nat i @ ''.xml'' @ (if gz then ''.gz'' else []))
                                (enumerate 0 (chunk (index_urls us) sz))),
                    conf_xslUrl = xsl, conf_xmlNs = None, conf_lastmodISO = None,
                    conf_lastmodrealtime = False, conf_lastmod = None\<rparr>)))],
          processesCount = int (length (chunk (index_urls us) sz)) + 1,
          opened = [], written = [], ended = [], finished = [], calls = [], heap = h\<rparr>"
  using assms
  by (simp add: SitemapIndex_def check_target_def try_body_def each_chunk_result
      buildSitemapIndex_def index_lastmod_none Let_def)

lemma chunk_index_bound:
  assumes "0 < sz" and "i < (length xs + sz - 1) div sz"
  shows "i * sz < length xs"
proof -
  have "\<not> (length xs + sz - 1) div sz < Suc i" using assms(2) by simp
  then have "\<not> length xs + sz - 1 < Suc i * sz"
    using assms(1) by (simp add: div_less_iff_less_mult)
  then show ?thesis using assms(1) by simp
qed

text \<open>
  Claim C1. For a list of \<open>N\<close> urls and a positive partition size, the constructor
  splits the list into contiguous chunks in input order: chunk \<open>i\<close> is the \<open>sz\<close>
  elements from position \<open>i * sz\<close> on, every chunk but the last has \<open>sz\<close>
  elements, the last has between one and \<open>sz\<close>, there are \<open>ceil (N / sz)\<close>
  chunks, their concatenation is the input, and an empty input gives no chunk.
\<close>

theorem partition_chunks:
  assumes "fs tf = Some Directory" and "0 < sz"
  shows "\<exists>st. SitemapIndex own fs h (UrlArray xs) tf hn cacheTime name sz xsl gz cb = Inr st \<and>
           length (chunks (self st)) = (length xs + sz - 1) div sz \<and>
           concat (chunks (self st)) = xs \<and>
           (\<forall>i < length (chunks (self st)).
              chunks (self st) ! i = take sz (drop (i * sz) xs) \<and>
              chunks (self st) ! i \<noteq> [] \<and>
              length (chunks (self st) ! i) \<le> sz \<and>
              (Suc i < length (chunks (self st)) \<longrightarrow> length (chunks (self st) ! i) = sz)) \<and>
           (xs = [] \<longrightarrow> chunks (self st) = [])"
proof -
  let ?cs = "chunk xs sz"
  have len: "length ?cs = (length xs + sz - 1) div sz"
    by (rule length_chunk [OF assms(2)])
  have each: "?cs ! i = take sz (drop (i * sz) xs) \<and> ?cs ! i \<noteq> [] \<and> length (?cs ! i) \<le> sz \<and>
      (Suc i < length ?cs \<longrightarrow> length (?cs ! i) = sz)" if i: "i < length ?cs" for i
  proof -
    have nth: "?cs ! i = take sz (drop (i * sz) xs)"
      by (rule nth_chunk [OF assms(2) i])
    have lt: "i * sz < length xs"
      using chunk_index_bound [OF assms(2)] i len by simp
    have full: "length (?cs ! i) = sz" if "Suc i < length ?cs"
    proof -
      have "Suc i * sz < length xs"
        using chunk_index_bound [OF assms(2), of "Suc i" xs] that len by simp
      then show ?thesis by (simp add: nth)
    qed
    from nth lt assms(2) full show ?thesis by simp
  qed
  obtain st where st: "SitemapIndex own fs h (UrlArray xs) tf hn cacheTime name sz xsl gz cb = Inr st"
    and ch: "chunks (self st) = ?cs"
    using SitemapIndex_result [of fs tf, OF assms(1)] by simp
  have "concat ?cs = xs" by (rule concat_chunk [OF assms(2)])
  moreover have "xs = [] \<longrightarrow> ?cs = []" by (simp add: chunk_Nil)
  ultimately show ?thesis
    using st len each unfolding ch [symmetric] by blast
qed

text \<open>Three urls in chunks of two.\<close>

theorem partition_chunks_witness:
  "\<exists>st. SitemapIndex False (\<lambda>p. Some Directory) [] (UrlArray [Str ''a'', Str ''b'', Str ''c''])
          ''/tmp'' None None None 2 None False False = Inr st \<and>
        length (chunks (self st)) = 2 \<and>
        concat (chunks (self st)) = [Str ''a'', Str ''b'', Str ''c''] \<and>
        chunks (self st) ! 0 = [Str ''a'', Str ''b''] \<and>
        chunks (self st) ! 1 = [Str ''c'']"
proof -
  have d: "(\<lambda>p. Some Directory) ''/tmp'' = Some Directory" by simp
  have p: "0 < (2::nat)" by simp
  from partition_chunks [where fs = "\<lambda>p. Some Directory" and tf = "''/tmp''" and sz = 2
      and own = False and h = "[]" and xs = "[Str ''a'', Str ''b'', Str ''c'']" and hn = None
      and cacheTime = None and name = None and xsl = None and gz = False and cb = False, OF d p]
  obtain st where st:
    "SitemapIndex False (\<lambda>p. Some Directory) [] (UrlArray [Str ''a'', Str ''b'', Str ''c''])
          ''/tmp'' None None None 2 None False False = Inr st"
    "length (chunks (self st)) = (length [Str ''a'', Str ''b'', Str ''c''] + 2 - 1) div 2"
    "concat (chunks (self st)) = [Str ''a'', Str ''b'', Str ''c'']"
    "\<forall>i < length (chunks (self st)).
        chunks (self st) ! i = take 2 (drop (i * 2) [Str ''a'', Str ''b'', Str ''c''])"
    by blast
  from st(2) have l2: "length (chunks (self st)) = 2" by simp
  with st(4) have "chunks (self st) ! 0 = [Str ''a'', Str ''b'']" "chunks (self st) ! 1 = [Str ''c'']"
    by simp_all
  with st(1,3) l2 show ?thesis by blast
qed

section \<open>Filenames and the index document\<close>

lemma filter_loc_index_xml:
  "filter (\<lambda>l. take 5 l = ''<loc>'') (index_xml None conf) =
     map (\<lambda>u. ''<loc>'' @ u @ ''</loc>'') (conf_urls conf)"
proof -
  have entries: "filter (\<lambda>l. take 5 l = ''<loc>'') (concat (map (index_entry None) us)) =
      map (\<lambda>u. ''<loc>'' @ u @ ''</loc>'') us" for us
    by (induction us) (simp_all add: index_entry_def truthy_def)
  have head: "filter (\<lambda>l. take 5 l = ''<loc>'') (index_head conf) = []"
    by (simp add: index_head_def)
  show ?thesis
    by (simp add: index_xml_def entries head)
qed


lemma enumerate_map_upt:
  "map (\<lambda>(i, c). f i c) (enumerate 0 cs) = map (\<lambda>i. f i (cs ! i)) [0..<length cs]"
  by (rule nth_equalityI) (simp_all add: nth_enumerate_eq)

lemma SitemapIndex_fields:
  assumes "fs tf = Some Directory"
  obtains st where
    "SitemapIndex own fs h us tf hn cacheTime name sz xsl gz cb = Inr st"
    "sitemapName (self st) = (case name of None \<Rightarrow> ''sitemap'' | Some n \<Rightarrow> n)"
    "chunks (self st) = chunk (index_urls us) sz"
    "callback (self st) = cb"
    "sitemaps (self st) =
       map (\<lambda>i. sitemapName (self st) @ ''-'' @ string_of_nat i @ ''.xml'' @ (if gz then ''.gz'' else []))
         [0..<length (chunks (self st))]"
    "streams st =
       map (\<lambda>i. (tf @ ''/'' @ sitemapName (self st) @ ''-'' @ string_of_nat i @ ''.xml'' @
                    (if gz then ''.gz'' else []),
                  ChunkDoc \<lparr>limit = 50000, hostname = hn, urls = chunks (self st) ! i,
                            cacheResetPeriod = 0, cache = [], cacheSetTimestamp = None,
                            xslUrl = xsl, xmlNs = None\<rparr> (Sitemap_root None)))
         [0..<length (chunks (self st))] @
       [(tf @ ''/'' @ sitemapName (self st) @ ''-index.xml'',
         IndexDoc (join_with [CHR 0x0A]
           (index_xml None
              \<lparr>conf_urls = map (\<lambda>filename. js_string hn @ ''/'' @ filename) (sitemaps (self st)),
               conf_xslUrl = xsl, conf_xmlNs = None, conf_lastmodISO = None,
               conf_lastmodrealtime = False, conf_lastmod = None\<rparr>)))]"
    "processesCount st = int (length (chunks (self st))) + 1"
    "opened st = []" "written st = []" "calls st = []" "gzip st = gz" "heap st = h"
    "ended st = []" "finished st = []"
  by (rule that [OF SitemapIndex_result [of fs tf, OF assms]])
     (simp_all add: enumerate_map_upt)

lemma join_with_Cons: "join_with sep (x # xs) = x @ concat (map (\<lambda>y. sep @ y) xs)"
  by (induction xs arbitrary: x) simp_all

lemma join_with_append:
  "xs \<noteq> [] \<Longrightarrow> join_with sep (xs @ ys) = join_with sep xs @ concat (map (\<lambda>y. sep @ y) ys)"
  by (cases xs) (simp_all add: join_with_Cons)

lemma index_head_not_Nil: "index_head conf \<noteq> []"
  by (simp add: index_head_def)

lemma join_index_head:
  \<open>join_with [CHR 0x0A]
     (index_head \<lparr>conf_urls = us, conf_xslUrl = xsl, conf_xmlNs = None, conf_lastmodISO = None,
                  conf_lastmodrealtime = False, conf_lastmod = None\<rparr>) =
   ''<?xml version="1.0" encoding="UTF-8"?>'' @
   (if truthy xsl
    then [CHR 0x0A] @ ''<?xml-stylesheet type="text/xsl" href="'' @ js_string xsl @ ''"?>''
    else []) @
   [CHR 0x0A] @
   ''<sitemapindex xmlns="http://www.sitemaps.org/schemas/sitemap/0.9" '' @
   ''xmlns:mobile="http://www.google.com/schemas/sitemap-mobile/1.0" '' @
   ''xmlns:image="http://www.google.com/schemas/sitemap-image/1.1" '' @
   ''xmlns:video="http://www.google.com/schemas/sitemap-video/1.1">''\<close>
  by (simp add: index_head_def truthy_def)

lemma concat_index_entries:
  "concat (map (\<lambda>l. sep @ l) (concat (map (index_entry None) us))) =
     concat (map (\<lambda>u. sep @ ''<sitemap>'' @ sep @ ''<loc>'' @ u @ ''</loc>'' @ sep @ ''</sitemap>'') us)"
  by (induction us) (simp_all add: index_entry_def truthy_def)

lemma join_index_xml:
  "join_with sep (index_xml None conf) =
     join_with sep (index_head conf) @
     concat (map (\<lambda>u. sep @ ''<sitemap>'' @ sep @ ''<loc>'' @ u @ ''</loc>'' @ sep @ ''</sitemap>'')
       (conf_urls conf)) @
     sep @ ''</sitemapindex>''"
  unfolding index_xml_def
  by (simp add: join_with_append [OF index_head_not_Nil] concat_index_entries)

lemma on_open_index:
  assumes "streams st = ss @ [(p, IndexDoc x)]" and "opened st = []" and "written st = []"
  shows "written (on_open ev (length ss, t, t') st) = [(p, x)]"
  using assms by (simp add: on_open_def stream_data_def)

text \<open>
  Claim C5. The chunk at index \<open>i\<close> gets the filename
  \<open>sitemapName @ ''-'' @ i @ ''.xml''\<close>, with \<open>''.gz''\<close> appended when
  \<open>gzip\<close> is set, the ids counting from 0; its stream is opened at
  \<open>targetFolder @ ''/'' @ filename\<close> for the Sitemap of that chunk. The index
  document is built from the urls \<open>hostname @ ''/'' @ filename\<close> in the order of
  the filenames: it is the head lines, then for each filename in turn the lines
  \<open><sitemap>\<close>, \<open><loc>hostname/filename</loc>\<close>, \<open></sitemap>\<close>, then
  \<open></sitemapindex>\<close>, joined by newlines. This string is what the listener of the
  stream \<open>targetFolder @ ''/'' @ sitemapName @ ''-index.xml''\<close> writes.
\<close>

theorem index_filenames:
  assumes \<open>fs tf = Some Directory\<close>
  shows \<open>\<exists>st xmlString.
      SitemapIndex own fs h us tf hn cacheTime name sz xsl gz cb = Inr st \<and>
      sitemapName (self st) = (case name of None \<Rightarrow> ''sitemap'' | Some n \<Rightarrow> n) \<and>
      length (sitemaps (self st)) = length (chunks (self st)) \<and>
      (\<forall>i < length (chunks (self st)).
         sitemaps (self st) ! i =
           sitemapName (self st) @ ''-'' @ string_of_nat i @ ''.xml'' @ (if gz then ''.gz'' else []) \<and>
         fst (streams st ! i) = tf @ ''/'' @ sitemaps (self st) ! i \<and>
         (\<exists>sitemap. snd (streams st ! i) = ChunkDoc sitemap (Sitemap_root None) \<and>
            urls sitemap = chunks (self st) ! i \<and> hostname sitemap = hn \<and> xslUrl sitemap = xsl)) \<and>
      buildSitemapIndex now_iso to_iso
        \<lparr>conf_urls = map (\<lambda>filename. js_string hn @ ''/'' @ filename) (sitemaps (self st)),
         conf_xslUrl = xsl, conf_xmlNs = None, conf_lastmodISO = None,
         conf_lastmodrealtime = False, conf_lastmod = None\<rparr> = Inr xmlString \<and>
      xmlString =
        ''<?xml version="1.0" encoding="UTF-8"?>'' @
        (if truthy xsl
         then [CHR 0x0A] @ ''<?xml-stylesheet type="text/xsl" href="'' @ js_string xsl @ ''"?>''
         else []) @
        [CHR 0x0A] @
        ''<sitemapindex xmlns="http://www.sitemaps.org/schemas/sitemap/0.9" '' @
        ''xmlns:mobile="http://www.google.com/schemas/sitemap-mobile/1.0" '' @
        ''xmlns:image="http://www.google.com/schemas/sitemap-image/1.1" '' @
        ''xmlns:video="http://www.google.com/schemas/sitemap-video/1.1">'' @
        concat (map (\<lambda>filename.
                  [CHR 0x0A] @ ''<sitemap>'' @
                  [CHR 0x0A] @ ''<loc>'' @ js_string hn @ ''/'' @ filename @ ''</loc>'' @
                  [CHR 0x0A] @ ''</sitemap>'')
          (sitemaps (self st))) @
        [CHR 0x0A] @ ''</sitemapindex>'' \<and>
      filter (\<lambda>l. take 5 l = ''<loc>'')
        (index_xml None
          \<lparr>conf_urls = map (\<lambda>filename. js_string hn @ ''/'' @ filename) (sitemaps (self st)),
           conf_xslUrl = xsl, conf_xmlNs = None, conf_lastmodISO = None,
           conf_lastmodrealtime = False, conf_lastmod = None\<rparr>) =
        map (\<lambda>filename. ''<loc>'' @ js_string hn @ ''/'' @ filename @ ''</loc>'') (sitemaps (self st)) \<and>
      streams st ! length (chunks (self st)) =
        (tf @ ''/'' @ sitemapName (self st) @ ''-index.xml'', IndexDoc xmlString) \<and>
      written (on_open ev (length (chunks (self st)), t, t') st) =
        [(tf @ ''/'' @ sitemapName (self st) @ ''-index.xml'', xmlString)]\<close>
proof -
  obtain st where st: "SitemapIndex own fs h us tf hn cacheTime name sz xsl gz cb = Inr st"
    and nm: "sitemapName (self st) = (case name of None \<Rightarrow> ''sitemap'' | Some n \<Rightarrow> n)"
    and sm: "sitemaps (self st) =
       map (\<lambda>i. sitemapName (self st) @ ''-'' @ string_of_nat i @ ''.xml'' @ (if gz then ''.gz'' else []))
         [0..<length (chunks (self st))]"
    and ss: "streams st =
       map (\<lambda>i. (tf @ ''/'' @ sitemapName (self st) @ ''-'' @ string_of_nat i @ ''.xml'' @
                    (if gz then ''.gz'' else []),
                  ChunkDoc \<lparr>limit = 50000, hostname = hn, urls = chunks (self st) ! i,
                            cacheResetPeriod = 0, cache = [], cacheSetTimestamp = None,
                            xslUrl = xsl, xmlNs = None\<rparr> (Sitemap_root None)))
         [0..<length (chunks (self st))] @
       [(tf @ ''/'' @ sitemapName (self st) @ ''-index.xml'',
         IndexDoc (join_with [CHR 0x0A]
           (index_xml None
              \<lparr>conf_urls = map (\<lambda>filename. js_string hn @ ''/'' @ filename) (sitemaps (self st)),
               conf_xslUrl = xsl, conf_xmlNs = None, conf_lastmodISO = None,
               conf_lastmodrealtime = False, conf_lastmod = None\<rparr>)))]"
    and op: "opened st = []" and wr: "written st = []"
    by (rule SitemapIndex_fields [of fs tf, OF assms])
  let ?conf = "\<lparr>conf_urls = map (\<lambda>filename. js_string hn @ ''/'' @ filename) (sitemaps (self st)),
         conf_xslUrl = xsl, conf_xmlNs = None, conf_lastmodISO = None,
         conf_lastmodrealtime = False, conf_lastmod = None\<rparr>"
  let ?x = "join_with [CHR 0x0A] (index_xml None ?conf)"
  let ?n = "length (chunks (self st))"
  have len: "length (sitemaps (self st)) = ?n"
    by (subst sm) simp
  have names: "sitemaps (self st) ! i =
      sitemapName (self st) @ ''-'' @ string_of_nat i @ ''.xml'' @ (if gz then ''.gz'' else [])"
    if "i < ?n" for i
    using that by (subst sm) simp
  have chunk_stream: "fst (streams st ! i) = tf @ ''/'' @ sitemaps (self st) ! i \<and>
      (\<exists>sitemap. snd (streams st ! i) = ChunkDoc sitemap (Sitemap_root None) \<and>
         urls sitemap = chunks (self st) ! i \<and> hostname sitemap = hn \<and> xslUrl sitemap = xsl)"
    if "i < ?n" for i
    using that by (simp add: ss names nth_append)
  have build: "buildSitemapIndex now_iso to_iso ?conf = Inr ?x"
    by (simp add: buildSitemapIndex_def index_lastmod_none)
  have locs: "filter (\<lambda>l. take 5 l = ''<loc>'') (index_xml None ?conf) =
      map (\<lambda>filename. ''<loc>'' @ js_string hn @ ''/'' @ filename @ ''</loc>'') (sitemaps (self st))"
    by (simp add: filter_loc_index_xml comp_def)
  have last: "streams st ! ?n = (tf @ ''/'' @ sitemapName (self st) @ ''-index.xml'', IndexDoc ?x)"
    by (subst ss) (simp add: nth_append)
  have wrote: "written (on_open ev (?n, t, t') st) =
      [(tf @ ''/'' @ sitemapName (self st) @ ''-index.xml'', ?x)]"
    using on_open_index [OF ss op wr, of ev t t'] by simp
  have doc: \<open>?x =
        ''<?xml version="1.0" encoding="UTF-8"?>'' @
        (if truthy xsl
         then [CHR 0x0A] @ ''<?xml-stylesheet type="text/xsl" href="'' @ js_string xsl @ ''"?>''
         else []) @
        [CHR 0x0A] @
        ''<sitemapindex xmlns="http://www.sitemaps.org/schemas/sitemap/0.9" '' @
        ''xmlns:mobile="http://www.google.com/schemas/sitemap-mobile/1.0" '' @
        ''xmlns:image="http://www.google.com/schemas/sitemap-image/1.1" '' @
        ''xmlns:video="http://www.google.com/schemas/sitemap-video/1.1">'' @
        concat (map (\<lambda>filename.
                  [CHR 0x0A] @ ''<sitemap>'' @
                  [CHR 0x0A] @ ''<loc>'' @ js_string hn @ ''/'' @ filename @ ''</loc>'' @
                  [CHR 0x0A] @ ''</sitemap>'')
          (sitemaps (self st))) @
        [CHR 0x0A] @ ''</sitemapindex>''\<close>
    unfolding join_index_xml join_index_head by (simp add: comp_def)
  from st nm len names chunk_stream build doc locs last wrote show ?thesis by blast
qed

text \<open>Three urls in chunks of two, compressed.\<close>

theorem index_filenames_witness:
  "\<exists>st. SitemapIndex False (\<lambda>p. Some Directory) [] (UrlArray [Str ''a'', Str ''b'', Str ''c''])
          ''/tmp'' (Some ''http://h'') None None 2 None True True = Inr st \<and>
        sitemaps (self st) ! 0 = ''sitemap-0.xml.gz'' \<and>
        sitemaps (self st) ! 1 = ''sitemap-1.xml.gz'' \<and>
        fst (streams st ! 0) = ''/tmp/sitemap-0.xml.gz'' \<and>
        fst (streams st ! 1) = ''/tmp/sitemap-1.xml.gz'' \<and>
        fst (streams st ! 2) = ''/tmp/sitemap-index.xml''"
proof -
  have d: "(\<lambda>p. Some Directory) ''/tmp'' = Some Directory" by simp
  from index_filenames [where fs = "\<lambda>p. Some Directory" and tf = "''/tmp''" and own = False
      and h = "[]" and us = "UrlArray [Str ''a'', Str ''b'', Str ''c'']" and hn = "Some ''http://h''"
      and cacheTime = None and name = None and sz = 2 and xsl = None and gz = True and cb = True, OF d]
  obtain st xmlString where
    st: "SitemapIndex False (\<lambda>p. Some Directory) [] (UrlArray [Str ''a'', Str ''b'', Str ''c''])
          ''/tmp'' (Some ''http://h'') None None 2 None True True = Inr st"
    and nm0: "sitemapName (self st) = (case None of None \<Rightarrow> ''sitemap'' | Some n \<Rightarrow> n)"
    and each: "\<forall>i < length (chunks (self st)).
         sitemaps (self st) ! i =
           sitemapName (self st) @ ''-'' @ string_of_nat i @ ''.xml'' @ (if True then ''.gz'' else []) \<and>
         fst (streams st ! i) = ''/tmp'' @ ''/'' @ sitemaps (self st) ! i"
    and ix: "streams st ! length (chunks (self st)) =
        (''/tmp'' @ ''/'' @ sitemapName (self st) @ ''-index.xml'', IndexDoc xmlString)"
    by blast
  from nm0 have nm: "sitemapName (self st) = ''sitemap''" by simp
  have ch: "chunk [Str ''a'', Str ''b'', Str ''c''] 2 = [[Str ''a'', Str ''b''], [Str ''c'']]"
    by (simp add: chunk_Cons chunk_Nil)
  have "chunks (self st) = chunk [Str ''a'', Str ''b'', Str ''c''] 2"
    using st [unfolded SitemapIndex_result [of "\<lambda>p. Some Directory" "''/tmp''", OF d]] by auto
  then have n: "length (chunks (self st)) = 2" by (simp add: ch)
  from each n nm have
    "sitemaps (self st) ! 0 = ''sitemap-0.xml.gz''" "sitemaps (self st) ! 1 = ''sitemap-1.xml.gz''"
    "fst (streams st ! 0) = ''/tmp/sitemap-0.xml.gz''" "fst (streams st ! 1) = ''/tmp/sitemap-1.xml.gz''"
    by (simp_all add: string_of_nat.simps digit_def)
  moreover from ix n nm have "fst (streams st ! 2) = ''/tmp/sitemap-index.xml''" by simp
  ultimately show ?thesis using st by blast
qed


section \<open>The completion counter\<close>

lemma run_Nil: "run ev [] st = st"
  by (simp add: run_def)

lemma run_snoc: "run ev (es @ [e]) st = on_open ev e (run ev es st)"
  by (simp add: run_def)

lemma run_events_Nil: "run_events ev [] st = st"
  by (simp add: run_events_def)

lemma run_events_snoc: "run_events ev (es @ [e]) st = step ev e (run_events ev es st)"
  by (simp add: run_events_def)

lemma on_open_fixed:
  "streams (on_open ev e st) = streams st \<and> self (on_open ev e st) = self st \<and>
   gzip (on_open ev e st) = gzip st \<and> finished (on_open ev e st) = finished st"
  by (cases e) (simp add: on_open_def split: sum.splits prod.splits)

lemma step_fixed:
  "streams (step ev e st) = streams st \<and> self (step ev e st) = self st \<and>
   gzip (step ev e st) = gzip st"
  by (cases e) (simp_all add: on_open_fixed on_finish_def)

lemma run_events_fixed:
  "streams (run_events ev es st) = streams st \<and> self (run_events ev es st) = self st \<and>
   gzip (run_events ev es st) = gzip st"
  by (induction es rule: rev_induct) (simp_all add: run_events_Nil run_events_snoc step_fixed)

lemma counted_bound:
  assumes "counted st" and "i < length (streams st)" and "i \<notin> set (opened st)"
  shows "length (written st) < length (streams st)"
proof -
  from assms(1) obtain ids where ids: "distinct ids" "set ids \<subseteq> set (opened st)"
    "map fst (written st) = map (\<lambda>i. fst (streams st ! i)) ids"
    and d: "distinct (opened st)" and sub: "set (opened st) \<subseteq> {..<length (streams st)}"
    by (auto simp: counted_def)
  have "length (written st) = length ids"
    using ids(3) by (metis length_map)
  also have "\<dots> = card (set ids)" using ids(1) by (simp add: distinct_card)
  also have "\<dots> \<le> card (set (opened st))" using ids(2) by (simp add: card_mono)
  also have "\<dots> < card (insert i (set (opened st)))" using assms(3) by simp
  also have "\<dots> \<le> card {..<length (streams st)}"
    using sub assms(2) by (intro card_mono) auto
  finally show ?thesis by simp
qed

lemma counted_on_open:
  assumes "counted st"
  shows "counted (on_open ev e st)"
proof (cases e)
  case (fields i now now')
  show ?thesis
  proof (cases "i < length (streams st) \<and> i \<notin> set (opened st)")
    case False
    then have "on_open ev e st = st"
      using fields by (auto simp: on_open_def)
    with assms show ?thesis by simp
  next
    case True
    then have i: "i < length (streams st)" "i \<notin> set (opened st)" by simp_all
    from assms obtain ids where ids: "distinct ids" "set ids \<subseteq> set (opened st)"
      "map fst (written st) = map (\<lambda>i. fst (streams st ! i)) ids"
      and d: "distinct (opened st)" and sub: "set (opened st) \<subseteq> {..<length (streams st)}"
      and fin: "set (finished st) \<subseteq> set (ended st)" and en: "set (ended st) \<subseteq> set (opened st)"
      and le: "length (ended st) = length (written st)"
      and pc: "processesCount st = int (length (streams st)) - int (length (written st))"
      and cl: "calls st = (if processesCount st = 0 \<and> callback (self st) then [(None, True)] else [])"
      by (auto simp: counted_def)
    show ?thesis
    proof (cases "stream_data ev (gzip st) (snd (streams st ! i)) (heap st) now now'")
      case (Inl l)
      obtain er h' where l: "l = (er, h')" by (cases l)
      have "on_open ev e st = st\<lparr>opened := opened st @ [i], heap := h'\<rparr>"
        using fields True Inl l by (simp add: on_open_def)
      moreover have "counted (st\<lparr>opened := opened st @ [i], heap := h'\<rparr>)"
        unfolding counted_def using ids d sub fin en le pc cl i by auto
      ultimately show ?thesis by simp
    next
      case (Inr r)
      obtain dt h' where r: "r = (dt, h')" by (cases r)
      let ?st' = "st\<lparr>opened := opened st @ [i],
                    written := written st @ [(fst (streams st ! i), dt)],
                    ended := ended st @ [i],
                    heap := h',
                    processesCount := processesCount st - 1,
                    calls := (if processesCount st - 1 = 0 \<and> callback (self st)
                              then calls st @ [(None, True)] else calls st)\<rparr>"
      have eq: "on_open ev e st = ?st'"
        using fields True Inr r by (simp add: on_open_def)
      have lt: "length (written st) < length (streams st)"
        by (rule counted_bound [OF assms i])
      then have nz: "processesCount st \<noteq> 0" using pc by simp
      then have cl0: "calls st = []" using cl by simp
      have "distinct (ids @ [i])" using ids(1,2) i(2) by auto
      moreover have "set (ids @ [i]) \<subseteq> set (opened st @ [i])" using ids(2) by auto
      moreover have "map fst (written st @ [(fst (streams st ! i), dt)]) =
          map (\<lambda>i. fst (streams st ! i)) (ids @ [i])"
        using ids(3) by simp
      ultimately have ex: "\<exists>ids'. distinct ids' \<and> set ids' \<subseteq> set (opened st @ [i]) \<and>
          map fst (written st @ [(fst (streams st ! i), dt)]) = map (\<lambda>i. fst (streams st ! i)) ids'"
        by blast
      have "counted ?st'"
        unfolding counted_def using ex d sub fin en le pc cl0 i lt by auto
      with eq show ?thesis by simp
    qed
  qed
qed

lemma counted_on_finish: "counted st \<Longrightarrow> counted (on_finish i st)"
  by (auto simp: counted_def on_finish_def)

lemma counted_step: "counted st \<Longrightarrow> counted (step ev e st)"
  by (cases e) (simp_all add: counted_on_open counted_on_finish)

lemma counted_run_events: "counted st \<Longrightarrow> counted (run_events ev es st)"
  by (induction es rule: rev_induct) (simp_all add: run_events_Nil run_events_snoc counted_step)

lemma counted_all_written:
  assumes "counted st" and "processesCount st = 0"
  shows "set (map fst (written st)) = set (map fst (streams st))"
proof -
  from assms(1) obtain ids where ids: "distinct ids" "set ids \<subseteq> set (opened st)"
    "map fst (written st) = map (\<lambda>i. fst (streams st ! i)) ids"
    and sub: "set (opened st) \<subseteq> {..<length (streams st)}"
    and pc: "processesCount st = int (length (streams st)) - int (length (written st))"
    by (auto simp: counted_def)
  have "length ids = length (written st)" using ids(3) by (metis length_map)
  with pc assms(2) have "card (set ids) = card {..<length (streams st)}"
    using ids(1) by (simp add: distinct_card)
  moreover have "set ids \<subseteq> {..<length (streams st)}" using ids(2) sub by blast
  ultimately have all: "set ids = {..<length (streams st)}"
    by (intro card_subset_eq) auto
  have "set (map fst (written st)) = (\<lambda>i. fst (streams st ! i)) ` set ids"
    by (simp add: ids(3))
  also have "\<dots> = (\<lambda>i. fst (streams st ! i)) ` {..<length (streams st)}" by (simp add: all)
  also have "\<dots> = set (map (\<lambda>i. fst (streams st ! i)) [0..<length (streams st)])"
    by (simp add: atLeast0LessThan)
  also have "map (\<lambda>i. fst (streams st ! i)) [0..<length (streams st)] = map fst (streams st)"
    by (rule nth_equalityI) simp_all
  finally show ?thesis .
qed

text \<open>The listener that calls the callback has issued its own write in the same
  turn: that write has not completed when the callback runs.\<close>

lemma callback_before_finish:
  assumes "counted st" and "calls (on_open ev (i, now, now') st) \<noteq> calls st"
  shows "i \<in> set (ended (on_open ev (i, now, now') st)) \<and>
         i \<notin> set (finished (on_open ev (i, now, now') st))"
proof -
  from assms(2) have new: "i < length (streams st) \<and> i \<notin> set (opened st)"
    by (auto simp: on_open_def split: if_splits)
  from assms(1) have "set (finished st) \<subseteq> set (opened st)"
    by (auto simp: counted_def)
  with new have "i \<notin> set (finished st)" by blast
  then have nf: "i \<notin> set (finished (on_open ev (i, now, now') st))"
    by (simp add: on_open_fixed)
  from assms(2) new have "i \<in> set (ended (on_open ev (i, now, now') st))"
    by (auto simp: on_open_def split: sum.splits prod.splits if_splits)
  with nf show ?thesis by simp
qed

text \<open>
  Claim C6, amended. The counter starts at the number of chunks plus one. After any
  sequence of events of the streams it is the start value minus the number of writes
  that the \<open>open\<close> listeners have issued (one \<open>stream.write\<close> and
  \<open>stream.end\<close> per listener, the index stream included); the callback has been
  called, once and with \<open>(null, true)\<close>, exactly when the counter is zero (and the
  callback is a function), and then the write of every chunk file and of the index
  file has been issued. A write completes only after it was issued, and the code does
  not wait for it: when a listener calls the callback, its own write has been issued
  and has not completed.
\<close>

theorem completion_counter:
  assumes "fs tf = Some Directory"
  shows "\<exists>st. SitemapIndex own fs h us tf hn cacheTime name sz xsl gz cb = Inr st \<and>
     processesCount st = int (length (chunks (self st))) + 1 \<and>
     length (streams st) = length (chunks (self st)) + 1 \<and>
     calls st = [] \<and>
     (\<forall>es. processesCount (run_events ev es st) =
             processesCount st - int (length (written (run_events ev es st))) \<and>
           length (ended (run_events ev es st)) = length (written (run_events ev es st)) \<and>
           set (finished (run_events ev es st)) \<subseteq> set (ended (run_events ev es st)) \<and>
           calls (run_events ev es st) =
             (if processesCount (run_events ev es st) = 0 \<and> cb then [(None, True)] else []) \<and>
           (processesCount (run_events ev es st) = 0 \<longrightarrow>
              set (map fst (written (run_events ev es st))) = set (map fst (streams st)))) \<and>
     (\<forall>es i now now'.
        calls (step ev (Open i now now') (run_events ev es st)) \<noteq> calls (run_events ev es st) \<longrightarrow>
        i \<in> set (ended (step ev (Open i now now') (run_events ev es st))) \<and>
        i \<notin> set (finished (step ev (Open i now now') (run_events ev es st))))"
proof -
  obtain st where st: "SitemapIndex own fs h us tf hn cacheTime name sz xsl gz cb = Inr st"
    and cb: "callback (self st) = cb"
    and ss: "streams st =
       map (\<lambda>i. (tf @ ''/'' @ sitemapName (self st) @ ''-'' @ string_of_nat i @ ''.xml'' @
                    (if gz then ''.gz'' else []),
                  ChunkDoc \<lparr>limit = 50000, hostname = hn, urls = chunks (self st) ! i,
                            cacheResetPeriod = 0, cache = [], cacheSetTimestamp = None,
                            xslUrl = xsl, xmlNs = None\<rparr> (Sitemap_root None)))
         [0..<length (chunks (self st))] @
       [(tf @ ''/'' @ sitemapName (self st) @ ''-index.xml'',
         IndexDoc (join_with [CHR 0x0A]
           (index_xml None
              \<lparr>conf_urls = map (\<lambda>filename. js_string hn @ ''/'' @ filename) (sitemaps (self st)),
               conf_xslUrl = xsl, conf_xmlNs = None, conf_lastmodISO = None,
               conf_lastmodrealtime = False, conf_lastmod = None\<rparr>)))]"
    and pc: "processesCount st = int (length (chunks (self st))) + 1"
    and op: "opened st = []" and wr: "written st = []" and cl: "calls st = []"
    and en: "ended st = []" and fi: "finished st = []"
    by (rule SitemapIndex_fields [of fs tf, OF assms])
  have len: "length (streams st) = length (chunks (self st)) + 1"
    by (subst ss) simp
  have c0: "counted st"
    unfolding counted_def using op wr cl en fi pc len by simp
  have step: "processesCount (run_events ev es st) =
             processesCount st - int (length (written (run_events ev es st))) \<and>
           length (ended (run_events ev es st)) = length (written (run_events ev es st)) \<and>
           set (finished (run_events ev es st)) \<subseteq> set (ended (run_events ev es st)) \<and>
           calls (run_events ev es st) =
             (if processesCount (run_events ev es st) = 0 \<and> cb then [(None, True)] else []) \<and>
           (processesCount (run_events ev es st) = 0 \<longrightarrow>
              set (map fst (written (run_events ev es st))) = set (map fst (streams st)))" for es
  proof -
    have c: "counted (run_events ev es st)" by (rule counted_run_events [OF c0])
    have fx: "streams (run_events ev es st) = streams st" "self (run_events ev es st) = self st"
      using run_events_fixed [of ev es st] by simp_all
    from c have "processesCount (run_events ev es st) =
        int (length (streams st)) - int (length (written (run_events ev es st)))"
      by (simp add: counted_def fx)
    moreover from c have "calls (run_events ev es st) =
        (if processesCount (run_events ev es st) = 0 \<and> cb then [(None, True)] else [])"
      by (simp add: counted_def fx cb)
    moreover from c have "length (ended (run_events ev es st)) = length (written (run_events ev es st))"
      and "set (finished (run_events ev es st)) \<subseteq> set (ended (run_events ev es st))"
      by (simp_all add: counted_def)
    moreover have "set (map fst (written (run_events ev es st))) = set (map fst (streams st))"
      if "processesCount (run_events ev es st) = 0"
      using counted_all_written [OF c that] by (simp add: fx)
    ultimately show ?thesis using pc len by simp
  qed
  have early: "i \<in> set (ended (step ev (Open i now now') (run_events ev es st))) \<and>
        i \<notin> set (finished (step ev (Open i now now') (run_events ev es st)))"
    if "calls (step ev (Open i now now') (run_events ev es st)) \<noteq> calls (run_events ev es st)"
    for es i now now'
    using callback_before_finish [OF counted_run_events [OF c0], of ev i now now' ev es] that
    by simp
  from st pc len cl step early show ?thesis by blast
qed

lemmas eval_defs = on_open_def on_finish_def run_def run_events_def stream_data_def toString_def
  toGzip_def isCacheValid_def setCache_def normalize_def truthy_def js_string_def prepare_root_def
  Sitemap_root_def att_def instructionBefore_def default_namespaces_def

text \<open>Two chunks of one url: the callback is called when the third stream has
  opened, and a repeated event changes nothing.\<close>

theorem completion_counter_witness:
  "\<exists>st. SitemapIndex False (\<lambda>p. Some Directory) [] (UrlArray [Str ''a'', Str ''b''])
          ''/tmp'' None None None 1 None False True = Inr st \<and>
        processesCount st = 3 \<and>
        calls (run_events \<lparr>buildXML = (\<lambda>h smi. Inr (url smi)),
                    root_end = (\<lambda>r. concat (children r)),
                    gzipSync = (\<lambda>s. s)\<rparr> [Open 2 0 0, Finish 2, Open 0 0 0] st) = [] \<and>
        calls (run_events \<lparr>buildXML = (\<lambda>h smi. Inr (url smi)),
                    root_end = (\<lambda>r. concat (children r)),
                    gzipSync = (\<lambda>s. s)\<rparr>
                 [Open 2 0 0, Finish 2, Open 0 0 0, Open 1 0 0, Open 1 5 5] st) =
          [(None, True)]"
proof -
  let ?ev = "\<lparr>buildXML = (\<lambda>h smi. Inr (url smi)),
              root_end = (\<lambda>r. concat (children r)),
              gzipSync = (\<lambda>s. s)\<rparr>"
  have d: "(\<lambda>p. Some Directory) ''/tmp'' = Some Directory" by simp
  from completion_counter [where fs = "\<lambda>p. Some Directory" and tf = "''/tmp''" and own = False
      and h = "[]" and us = "UrlArray [Str ''a'', Str ''b'']" and hn = None and cacheTime = None
      and name = None and sz = 1 and xsl = None and gz = False and cb = True and ev = ?ev, OF d]
  obtain st where st: "SitemapIndex False (\<lambda>p. Some Directory) [] (UrlArray [Str ''a'', Str ''b''])
          ''/tmp'' None None None 1 None False True = Inr st"
    and pc: "processesCount st = int (length (chunks (self st))) + 1"
    and run: "\<And>es. processesCount (run_events ?ev es st) =
             processesCount st - int (length (written (run_events ?ev es st))) \<and>
           length (ended (run_events ?ev es st)) = length (written (run_events ?ev es st)) \<and>
           set (finished (run_events ?ev es st)) \<subseteq> set (ended (run_events ?ev es st)) \<and>
           calls (run_events ?ev es st) =
             (if processesCount (run_events ?ev es st) = 0 \<and> True then [(None, True)] else [])"
    by blast
  have ch: "chunk [Str ''a'', Str ''b''] (Suc 0) = [[Str ''a''], [Str ''b'']]"
    by (simp add: chunk_Cons chunk_Nil)
  note ex = st [unfolded SitemapIndex_result [of "\<lambda>p. Some Directory" "''/tmp''", OF d], simplified,
      unfolded ch, simplified, symmetric]
  have n: "processesCount st = 3"
    by (subst ex) simp
  have w1: "length (written (run_events ?ev [Open 2 0 0, Finish 2, Open 0 0 0] st)) = 2"
    by (subst ex) (simp add: eval_defs)
  have w2: "length (written (run_events ?ev
      [Open 2 0 0, Finish 2, Open 0 0 0, Open 1 0 0, Open 1 5 5] st)) = 3"
    by (subst ex) (simp add: eval_defs)
  from run [of "[Open 2 0 0, Finish 2, Open 0 0 0]"] n w1
  have c1: "calls (run_events ?ev [Open 2 0 0, Finish 2, Open 0 0 0] st) = []" by simp
  from run [of "[Open 2 0 0, Finish 2, Open 0 0 0, Open 1 0 0, Open 1 5 5]"] n w2
  have c2: "calls (run_events ?ev [Open 2 0 0, Finish 2, Open 0 0 0, Open 1 0 0, Open 1 5 5] st) =
      [(None, True)]" by simp
  from st n c1 c2 show ?thesis by blast
qed

text \<open>
  Claim C6 as stated fails: the counter is decremented when a write is issued, not
  when it completes, and the callback does not wait for the writes. One chunk: its
  stream opens and its write completes; then the index stream opens, its listener
  issues the write and calls the callback in the same turn, while the write of the
  index file has not completed.
\<close>

theorem completion_counter_counterexample:
  "(case SitemapIndex False (\<lambda>p. Some Directory) [] (UrlArray [Str ''a''])
           ''/tmp'' None None None 50000 None False True of
      Inl er \<Rightarrow> False
    | Inr st \<Rightarrow>
        processesCount (run_events \<lparr>buildXML = (\<lambda>h smi. Inr (url smi)),
                    root_end = (\<lambda>r. concat (children r)),
                    gzipSync = (\<lambda>s. s)\<rparr> [Open 0 1 2, Finish 0, Open 1 3 4] st) = 0 \<and>
        calls (run_events \<lparr>buildXML = (\<lambda>h smi. Inr (url smi)),
                    root_end = (\<lambda>r. concat (children r)),
                    gzipSync = (\<lambda>s. s)\<rparr> [Open 0 1 2, Finish 0, Open 1 3 4] st) = [(None, True)] \<and>
        ended (run_events \<lparr>buildXML = (\<lambda>h smi. Inr (url smi)),
                    root_end = (\<lambda>r. concat (children r)),
                    gzipSync = (\<lambda>s. s)\<rparr> [Open 0 1 2, Finish 0, Open 1 3 4] st) = [0, 1] \<and>
        finished (run_events \<lparr>buildXML = (\<lambda>h smi. Inr (url smi)),
                    root_end = (\<lambda>r. concat (children r)),
                    gzipSync = (\<lambda>s. s)\<rparr> [Open 0 1 2, Finish 0, Open 1 3 4] st) = [0])"
proof -
  have d: "(\<lambda>p. Some Directory) ''/tmp'' = Some Directory" by simp
  have ch: "chunk [Str ''a''] 50000 = [[Str ''a'']]"
    by (simp add: chunk_Cons chunk_Nil)
  show ?thesis
    unfolding SitemapIndex_result [of "\<lambda>p. Some Directory" "''/tmp''", OF d]
    by (simp add: ch eval_defs)
qed

section \<open>The empty input\<close>

lemma run_single_stream:
  assumes "streams st = [(p, IndexDoc x)]" and "opened st = []" and "written st = []"
    and "calls st = []" and "processesCount st = 1" and "ended st = []"
  shows "run ev es st =
     (if 0 \<in> fst ` set es
      then st\<lparr>opened := [0], written := [(p, x)], ended := [0], heap := heap st,
              processesCount := 0,
              calls := (if callback (self st) then [(None, True)] else [])\<rparr>
      else st)"
proof (induction es rule: rev_induct)
  case Nil
  show ?case by (simp add: run_Nil)
next
  case (snoc e es)
  obtain i now now' where e: "e = (i, now, now')" by (cases e)
  show ?case
  proof (cases "0 \<in> fst ` set es")
    case True
    with snoc e show ?thesis
      by (auto simp: run_snoc on_open_def assms(1))
  next
    case False
    with snoc have r: "run ev es st = st" by simp
    show ?thesis
    proof (cases "i = 0")
      case True
      with False e r assms show ?thesis
        by (simp add: run_snoc on_open_def stream_data_def)
    next
      case False
      with \<open>0 \<notin> fst ` set es\<close> e r assms show ?thesis
        by (auto simp: run_snoc on_open_def)
    qed
  qed
qed

text \<open>
  Claim C10. For an empty url list the constructor makes no chunk and no chunk
  file, but still creates the stream of the index file, whose document has no
  \<open><sitemap>\<close> entry; the counter starts at one, and the callback is called once,
  by the listener of the index stream.
\<close>

theorem empty_input_index:
  assumes "fs tf = Some Directory" and "index_urls us = []"
  shows "\<exists>st xmlString.
      SitemapIndex own fs h us tf hn cacheTime name sz xsl gz cb = Inr st \<and>
      chunks (self st) = [] \<and> sitemaps (self st) = [] \<and>
      streams st = [(tf @ ''/'' @ sitemapName (self st) @ ''-index.xml'', IndexDoc xmlString)] \<and>
      sitemapName (self st) = (case name of None \<Rightarrow> ''sitemap'' | Some n \<Rightarrow> n) \<and>
      buildSitemapIndex now_iso to_iso
        \<lparr>conf_urls = [], conf_xslUrl = xsl, conf_xmlNs = None, conf_lastmodISO = None,
         conf_lastmodrealtime = False, conf_lastmod = None\<rparr> = Inr xmlString \<and>
      ''<sitemap>'' \<notin> set (index_xml None
        \<lparr>conf_urls = [], conf_xslUrl = xsl, conf_xmlNs = None, conf_lastmodISO = None,
         conf_lastmodrealtime = False, conf_lastmod = None\<rparr>) \<and>
      processesCount st = 1 \<and> written st = [] \<and> calls st = [] \<and>
      (\<forall>es. written (run ev es st) =
              (if 0 \<in> fst ` set es
               then [(tf @ ''/'' @ sitemapName (self st) @ ''-index.xml'', xmlString)] else []) \<and>
            calls (run ev es st) = (if 0 \<in> fst ` set es \<and> cb then [(None, True)] else []))"
proof -
  obtain st where st: "SitemapIndex own fs h us tf hn cacheTime name sz xsl gz cb = Inr st"
    and nm: "sitemapName (self st) = (case name of None \<Rightarrow> ''sitemap'' | Some n \<Rightarrow> n)"
    and ch: "chunks (self st) = chunk (index_urls us) sz"
    and cb: "callback (self st) = cb"
    and sm: "sitemaps (self st) =
       map (\<lambda>i. sitemapName (self st) @ ''-'' @ string_of_nat i @ ''.xml'' @ (if gz then ''.gz'' else []))
         [0..<length (chunks (self st))]"
    and ss: "streams st =
       map (\<lambda>i. (tf @ ''/'' @ sitemapName (self st) @ ''-'' @ string_of_nat i @ ''.xml'' @
                    (if gz then ''.gz'' else []),
                  ChunkDoc \<lparr>limit = 50000, hostname = hn, urls = chunks (self st) ! i,
                            cacheResetPeriod = 0, cache = [], cacheSetTimestamp = None,
                            xslUrl = xsl, xmlNs = None\<rparr> (Sitemap_root None)))
         [0..<length (chunks (self st))] @
       [(tf @ ''/'' @ sitemapName (self st) @ ''-index.xml'',
         IndexDoc (join_with [CHR 0x0A]
           (index_xml None
              \<lparr>conf_urls = map (\<lambda>filename. js_string hn @ ''/'' @ filename) (sitemaps (self st)),
               conf_xslUrl = xsl, conf_xmlNs = None, conf_lastmodISO = None,
               conf_lastmodrealtime = False, conf_lastmod = None\<rparr>)))]"
    and pc: "processesCount st = int (length (chunks (self st))) + 1"
    and op: "opened st = []" and wr: "written st = []" and cl: "calls st = []"
    and g: "gzip st = gz" and hp: "heap st = h" and en: "ended st = []"
    by (rule SitemapIndex_fields [of fs tf, OF assms(1)])
  let ?conf = "\<lparr>conf_urls = [], conf_xslUrl = xsl, conf_xmlNs = None, conf_lastmodISO = None,
         conf_lastmodrealtime = False, conf_lastmod = None\<rparr>"
  let ?x = "join_with [CHR 0x0A] (index_xml None ?conf)"
  let ?p = "tf @ ''/'' @ sitemapName (self st) @ ''-index.xml''"
  have ch0: "chunks (self st) = []" by (simp add: ch assms(2) chunk_Nil)
  have sm0: "sitemaps (self st) = []" by (subst sm) (simp add: ch0)
  have ss0: "streams st = [(?p, IndexDoc ?x)]" by (subst ss) (simp add: ch0 sm0)
  have pc1: "processesCount st = 1" by (simp add: pc ch0)
  have build: "buildSitemapIndex now_iso to_iso ?conf = Inr ?x"
    by (simp add: buildSitemapIndex_def index_lastmod_none)
  have none: "''<sitemap>'' \<notin> set (index_xml None ?conf)"
    by (simp add: index_xml_def index_head_def truthy_def)
  have runs: "written (run ev es st) = (if 0 \<in> fst ` set es then [(?p, ?x)] else []) \<and>
      calls (run ev es st) = (if 0 \<in> fst ` set es \<and> cb then [(None, True)] else [])" for es
    by (simp add: run_single_stream [OF ss0 op wr cl pc1 en] wr cl cb)
  from st ch0 sm0 ss0 nm build none pc1 wr cl runs show ?thesis by blast
qed

text \<open>An empty array: the index stream opens, and a second event is ignored.\<close>

theorem empty_input_index_witness:
  "\<exists>st. SitemapIndex False (\<lambda>p. Some Directory) [] (UrlArray []) ''/tmp'' None None None 50000
          None False True = Inr st \<and>
        map fst (streams st) = [''/tmp/sitemap-index.xml''] \<and>
        processesCount st = 1 \<and>
        calls (run \<lparr>buildXML = (\<lambda>h smi. Inr (url smi)),
                    root_end = (\<lambda>r. concat (children r)),
                    gzipSync = (\<lambda>s. s)\<rparr> [(0, 7, 7), (0, 8, 8)] st) = [(None, True)]"
proof -
  let ?ev = "\<lparr>buildXML = (\<lambda>h smi. Inr (url smi)),
              root_end = (\<lambda>r. concat (children r)),
              gzipSync = (\<lambda>s. s)\<rparr>"
  have d: "(\<lambda>p. Some Directory) ''/tmp'' = Some Directory" by simp
  have e: "index_urls (UrlArray []) = []" by simp
  from empty_input_index [where fs = "\<lambda>p. Some Directory" and tf = "''/tmp''" and own = False
      and h = "[]" and us = "UrlArray []" and hn = None and cacheTime = None and name = None
      and sz = 50000 and xsl = None and gz = False and cb = True and ev = ?ev, OF d e]
  obtain st xmlString where
    st: "SitemapIndex False (\<lambda>p. Some Directory) [] (UrlArray []) ''/tmp'' None None None 50000
          None False True = Inr st"
    and ss: "streams st = [(''/tmp'' @ ''/'' @ sitemapName (self st) @ ''-index.xml'', IndexDoc xmlString)]"
    and nm: "sitemapName (self st) = (case None of None \<Rightarrow> ''sitemap'' | Some n \<Rightarrow> n)"
    and pc: "processesCount st = 1"
    and runs: "\<And>es. calls (run ?ev es st) = (if 0 \<in> fst ` set es \<and> True then [(None, True)] else [])"
    by blast
  have "map fst (streams st) = [''/tmp/sitemap-index.xml'']"
    by (simp add: ss nm)
  moreover have "calls (run ?ev [(0, 7, 7), (0, 8, 8)] st) = [(None, True)]"
    by (simp add: runs)
  ultimately show ?thesis using st pc by (intro exI [of _ st]) simp
qed

section \<open>Normalization\<close>

lemma normalize_url_rule: "normalize_url host smi = smi\<lparr>url := primary_rule host (url smi)\<rparr>"
  by (simp add: normalize_url_def primary_rule_def)

lemma join_url_rule:
  "join_url host a h =
     (if a < length h then Inr (h[a := (h ! a)\<lparr>sub_url := primary_rule host (sub_url (h ! a))\<rparr>])
      else Inl (TypeError, h))"
  by (simp add: join_url_def primary_rule_def)

lemma join_all_result:
  assumes "join_all host as h = Inr h'"
  shows "length h' = length h \<and>
     (\<forall>a < length h. h' ! a =
        (h ! a)\<lparr>sub_url := (primary_rule host ^^ count_list as a) (sub_url (h ! a))\<rparr>)"
  using assms
proof (induction as arbitrary: h)
  case Nil
  then show ?case by simp
next
  case (Cons b as)
  from Cons.prems have b: "b < length h"
    by (simp add: join_url_rule split: if_splits)
  let ?h1 = "h[b := (h ! b)\<lparr>sub_url := primary_rule host (sub_url (h ! b))\<rparr>]"
  from Cons.prems b have rest: "join_all host as ?h1 = Inr h'"
    by (simp add: join_url_rule)
  from Cons.IH [OF rest] have len: "length h' = length h"
    and nth: "\<And>a. a < length h \<Longrightarrow> h' ! a =
        (?h1 ! a)\<lparr>sub_url := (primary_rule host ^^ count_list as a) (sub_url (?h1 ! a))\<rparr>"
    by simp_all
  have "h' ! a = (h ! a)\<lparr>sub_url := (primary_rule host ^^ count_list (b # as) a) (sub_url (h ! a))\<rparr>"
    if a: "a < length h" for a
  proof (cases "a = b")
    case True
    with nth [OF a] b show ?thesis by (simp add: funpow_swap1)
  next
    case False
    with nth [OF a] show ?thesis by simp
  qed
  with len show ?case by simp
qed

lemma join_all_valid:
  assumes "join_all host as h = Inr h'" and "a \<in> set as"
  shows "a < length h"
  using assms
proof (induction as arbitrary: h)
  case Nil
  then show ?case by simp
next
  case (Cons b as)
  from Cons.prems(1) have b: "b < length h"
    by (simp add: join_url_rule split: if_splits)
  show ?case
  proof (cases "a = b")
    case True
    with b show ?thesis by simp
  next
    case False
    with Cons.prems(2) have "a \<in> set as" by simp
    moreover from Cons.prems(1) b
    have "join_all host as (h[b := (h ! b)\<lparr>sub_url := primary_rule host (sub_url (h ! b))\<rparr>]) = Inr h'"
      by (simp add: join_url_rule)
    ultimately have "a < length (h[b := (h ! b)\<lparr>sub_url := primary_rule host (sub_url (h ! b))\<rparr>])"
      by (rule Cons.IH [rotated])
    then show ?thesis by simp
  qed
qed

lemma join_all_other:
  assumes "join_all host as h = Inr h'" and "a \<notin> set as" and "a < length h"
  shows "h' ! a = h ! a"
  using join_all_result [OF assms(1)] assms(2,3) by (simp add: count_list_0_iff)

lemma join_all_returns_length:
  "list_all (\<lambda>a. a < length h) as \<Longrightarrow> \<exists>h'. join_all host as h = Inr h' \<and> length h' = length h"
proof (induction as arbitrary: h)
  case Nil
  show ?case by simp
next
  case (Cons a as)
  let ?h1 = "h[a := (h ! a)\<lparr>sub_url := primary_rule host (sub_url (h ! a))\<rparr>]"
  from Cons.prems have a: "a < length h" and "list_all (\<lambda>a. a < length ?h1) as" by simp_all
  from Cons.IH [OF this(2)] a show ?case by (simp add: join_url_rule)
qed

lemma join_img_store:
  assumes "join_img host (promote_img v) h = Inr (v', h1)"
  shows "join_all host (img_addrs v) h = Inr h1"
  using assms by (cases v) (auto simp: join_img_def promote_img_def split: sum.splits)

lemma join_img_value:
  assumes "join_img host (promote_img v) h = Inr (v', h1)"
  shows "v' = (case v of
                 ImgStr s \<Rightarrow> ImgNew \<lparr>sub_url = primary_rule host s, sub_props = []\<rparr>
               | ImgObj a \<Rightarrow> ImgArr [a]
               | ImgArr as \<Rightarrow> ImgArr as
               | ImgNew r \<Rightarrow> ImgNew (r\<lparr>sub_url := primary_rule host (sub_url r)\<rparr>))"
  using assms
  by (cases v) (auto simp: join_img_def promote_img_def primary_rule_def split: sum.splits)

lemma join_img_returns:
  assumes "list_all (\<lambda>a. a < length h) (img_addrs v)"
  shows "\<exists>v' h1. join_img host (promote_img v) h = Inr (v', h1) \<and> length h1 = length h"
proof (cases v)
  case (ImgStr s)
  then show ?thesis by (simp add: join_img_def promote_img_def)
next
  case (ImgObj a)
  with assms join_all_returns_length [of h "[a]" host] show ?thesis
    by (auto simp: join_img_def promote_img_def)
next
  case (ImgArr as)
  with assms join_all_returns_length [of h as host] show ?thesis
    by (auto simp: join_img_def promote_img_def)
next
  case (ImgNew r)
  then show ?thesis by (simp add: join_img_def promote_img_def)
qed

text \<open>Normalization returns whenever the addresses of the entry are in the store.\<close>

lemma normalize_returns:
  assumes "list_all (\<lambda>a. a < length h) (entry_addrs elem)"
  shows "\<exists>smi h'. normalize hn elem h = Inr (smi, h')"
proof (cases "truthy hn")
  case False
  then show ?thesis by (simp add: normalize_def)
next
  case True
  let ?host = "js_string hn"
  let ?smi0 = "normalize_url ?host (to_smi elem)"
  have im: "img ?smi0 = img (to_smi elem)" and lk: "links ?smi0 = links (to_smi elem)"
    by (simp_all add: normalize_url_rule)
  have "\<exists>smi1 h1. normalize_img ?host ?smi0 h = Inr (smi1, h1) \<and>
      links smi1 = links (to_smi elem) \<and> length h1 = length h"
  proof (cases "img (to_smi elem)")
    case None
    then show ?thesis by (simp add: normalize_img_def im lk)
  next
    case (Some v)
    show ?thesis
    proof (cases "img_truthy v")
      case False
      with Some show ?thesis by (simp add: normalize_img_def im lk)
    next
      case t: True
      have "list_all (\<lambda>a. a < length h) (img_addrs v)"
        using assms Some by (simp add: entry_addrs_def)
      from join_img_returns [OF this, of ?host] obtain v' h1 where
        "join_img ?host (promote_img v) h = Inr (v', h1)" and "length h1 = length h" by blast
      with Some t show ?thesis by (simp add: normalize_img_def im lk)
    qed
  qed
  then obtain smi1 h1 where i: "normalize_img ?host ?smi0 h = Inr (smi1, h1)"
    and l1: "links smi1 = links (to_smi elem)" and le: "length h1 = length h" by blast
  have "\<exists>h'. normalize_links ?host smi1 h1 = Inr (smi1, h')"
  proof (cases "links (to_smi elem)")
    case None
    then show ?thesis by (simp add: normalize_links_def l1)
  next
    case (Some ls)
    with assms le have "list_all (\<lambda>a. a < length h1) ls"
      by (simp add: entry_addrs_def)
    from join_all_returns_length [OF this, of ?host] Some
    show ?thesis by (auto simp: normalize_links_def l1)
  qed
  with i True show ?thesis by (auto simp: normalize_def)
qed

lemma strip_trailing_no_slash: "strip_trailing s \<noteq> t @ ''/''"
proof
  assume "strip_trailing s = t @ ''/''"
  then have "rev (strip_trailing s) = CHR ''/'' # rev t" by simp
  then have eq: "dropWhile (\<lambda>c. c = CHR ''/'') (rev s) = CHR ''/'' # rev t"
    by (simp add: strip_trailing_def)
  then have "dropWhile (\<lambda>c. c = CHR ''/'') (rev s) \<noteq> []" by simp
  from hd_dropWhile [OF this] eq show False by simp
qed

lemma strip_leading_no_slash: "strip_leading s \<noteq> CHR ''/'' # t"
proof
  assume eq: "strip_leading s = CHR ''/'' # t"
  then have "dropWhile (\<lambda>c. c = CHR ''/'') s \<noteq> []" by (simp add: strip_leading_def)
  from hd_dropWhile [OF this] eq show False by (simp add: strip_leading_def)
qed

lemma to_smi_url: "url (to_smi elem) = entry_url elem"
  by (cases elem) simp_all

lemma normalize_img_url:
  "normalize_img host smi h = Inr (smi', h') \<Longrightarrow> url smi' = url smi \<and> links smi' = links smi"
  by (auto simp: normalize_img_def split: option.splits if_splits prod.splits sum.splits)

lemma normalize_links_item: "normalize_links host smi h = Inr (smi', h') \<Longrightarrow> smi' = smi"
  by (auto simp: normalize_links_def split: option.splits sum.splits)

lemma normalize_hostname_url:
  assumes "normalize hn elem h = Inr (smi, h')" and "truthy hn"
  shows "url smi = primary_rule (js_string hn) (entry_url elem)"
proof -
  from assms obtain smi1 h1 where
    i: "normalize_img (js_string hn) (normalize_url (js_string hn) (to_smi elem)) h = Inr (smi1, h1)"
    and l: "normalize_links (js_string hn) smi1 h1 = Inr (smi, h')"
    by (auto simp: normalize_def split: sum.splits)
  from normalize_links_item [OF l] normalize_img_url [OF i]
  show ?thesis by (simp add: normalize_url_rule to_smi_url)
qed

text \<open>
  Claim C2. Normalization leaves a primary url that matches \<open>reProto\<close> as it is;
  with a hostname configured it replaces any other url by the join of hostname and
  url, which is the hostname without its trailing slashes, one slash, and the url
  without its leading slashes; without a hostname the entry and the store pass
  through unchanged.
\<close>

theorem primary_url:
  assumes "normalize hn elem h = Inr (smi, h')"
  shows "(reProto (entry_url elem) \<longrightarrow> url smi = entry_url elem) \<and>
         (truthy hn \<and> \<not> reProto (entry_url elem) \<longrightarrow>
            url smi = urljoin (js_string hn) (entry_url elem) \<and>
            url smi = strip_trailing (js_string hn) @ ''/'' @ strip_leading (entry_url elem) \<and>
            (\<forall>t. strip_trailing (js_string hn) \<noteq> t @ ''/'') \<and>
            (\<forall>t. strip_leading (entry_url elem) \<noteq> CHR ''/'' # t)) \<and>
         (\<not> truthy hn \<longrightarrow> smi = to_smi elem \<and> url smi = entry_url elem \<and> h' = h)"
proof (cases "truthy hn")
  case True
  from normalize_hostname_url [OF assms True]
  have "url smi = primary_rule (js_string hn) (entry_url elem)" .
  with True show ?thesis
    by (simp add: primary_rule_def urljoin_def strip_trailing_no_slash strip_leading_no_slash)
next
  case False
  with assms have "smi = to_smi elem" "h' = h" by (simp_all add: normalize_def)
  with False show ?thesis by (simp add: to_smi_url)
qed

text \<open>A relative url under a hostname that ends with a slash.\<close>

theorem primary_url_witness:
  "normalize (Some ''https://example.com/'') (Str ''/page1'') [] =
     Inr (\<lparr>url = ''https://example.com/page1'', img = None, links = None, props = []\<rparr>, []) \<and>
   truthy (Some ''https://example.com/'') \<and> \<not> reProto (entry_url (Str ''/page1'')) \<and>
   url \<lparr>url = ''https://example.com/page1'', img = None, links = None, props = []\<rparr> =
     urljoin (js_string (Some ''https://example.com/'')) (entry_url (Str ''/page1''))"
proof -
  have n: "normalize (Some ''https://example.com/'') (Str ''/page1'') [] =
     Inr (\<lparr>url = ''https://example.com/page1'', img = None, links = None, props = []\<rparr>, [])"
    by (simp add: normalize_def normalize_img_def normalize_links_def normalize_url_def
        truthy_def js_string_def urljoin_def strip_trailing_def strip_leading_def ieq_def)
  have t: "truthy (Some ''https://example.com/'')" by (simp add: truthy_def)
  have r: "\<not> reProto (entry_url (Str ''/page1''))" by simp
  from primary_url [OF n] t r n show ?thesis by simp
qed

lemma normalize_img_steps:
  assumes "truthy hn" and "normalize hn elem h = Inr (smi, h')"
    and "img (to_smi elem) = Some v" and "img_truthy v"
  obtains v' h2 where
    "join_img (js_string hn) (promote_img v) h = Inr (v', h2)"
    "img smi = Some v'"
    "case links (to_smi elem) of None \<Rightarrow> h' = h2
     | Some ls \<Rightarrow> join_all (js_string hn) ls h2 = Inr h'"
proof -
  from assms(1,2) obtain smi1 h1 where
    i: "normalize_img (js_string hn) (normalize_url (js_string hn) (to_smi elem)) h = Inr (smi1, h1)"
    and l: "normalize_links (js_string hn) smi1 h1 = Inr (smi, h')"
    by (auto simp: normalize_def split: sum.splits)
  have im: "img (normalize_url (js_string hn) (to_smi elem)) = Some v"
    and lk: "links (normalize_url (js_string hn) (to_smi elem)) = links (to_smi elem)"
    using assms(3) by (simp_all add: normalize_url_rule)
  from i im assms(4) obtain v' where
    j: "join_img (js_string hn) (promote_img v) h = Inr (v', h1)"
    and s1: "smi1 = (normalize_url (js_string hn) (to_smi elem))\<lparr>img := Some v'\<rparr>"
    by (auto simp: normalize_img_def split: prod.splits sum.splits)
  have eq: "smi = smi1" by (rule normalize_links_item [OF l])
  have "case links (to_smi elem) of None \<Rightarrow> h' = h1
     | Some ls \<Rightarrow> join_all (js_string hn) ls h1 = Inr h'"
    using l s1 lk by (auto simp: normalize_links_def split: option.splits sum.splits)
  with j s1 eq show thesis by (intro that [of v' h1]) simp_all
qed

lemma normalize_img_store:
  assumes "truthy hn" and "normalize hn elem h = Inr (smi, h')"
    and "img (to_smi elem) = Some v" and "img_truthy v"
    and "a \<in> set (img_addrs v)"
  shows "a < length h \<and> length h' = length h \<and>
     (count_list (img_addrs v) a = 1 \<and>
      a \<notin> set (case links (to_smi elem) of None \<Rightarrow> [] | Some ls \<Rightarrow> ls) \<longrightarrow>
        h' ! a = (h ! a)\<lparr>sub_url := primary_rule (js_string hn) (sub_url (h ! a))\<rparr>)"
proof -
  from normalize_img_steps [OF assms(1-4)] obtain v' h2 where
    ji: "join_img (js_string hn) (promote_img v) h = Inr (v', h2)"
    and l: "case links (to_smi elem) of None \<Rightarrow> h' = h2
            | Some ls \<Rightarrow> join_all (js_string hn) ls h2 = Inr h'"
    by blast
  have j: "join_all (js_string hn) (img_addrs v) h = Inr h2"
    by (rule join_img_store [OF ji])
  have valid: "a < length h"
    by (rule join_all_valid [OF j assms(5)])
  from join_all_result [OF j] valid
  have len2: "length h2 = length h"
    and nth2: "h2 ! a = (h ! a)\<lparr>sub_url :=
        (primary_rule (js_string hn) ^^ count_list (img_addrs v) a) (sub_url (h ! a))\<rparr>"
    by simp_all
  have len: "length h' = length h2"
  proof (cases "links (to_smi elem)")
    case None
    with l show ?thesis by simp
  next
    case (Some ls)
    with l have "join_all (js_string hn) ls h2 = Inr h'" by simp
    from join_all_result [OF this] show ?thesis by simp
  qed
  have "h' ! a = h2 ! a"
    if "a \<notin> set (case links (to_smi elem) of None \<Rightarrow> [] | Some ls \<Rightarrow> ls)"
  proof (cases "links (to_smi elem)")
    case None
    with l show ?thesis by simp
  next
    case (Some ls)
    with l have jl: "join_all (js_string hn) ls h2 = Inr h'" by simp
    from Some that have "a \<notin> set ls" by simp
    from join_all_other [OF jl this] valid len2 show ?thesis by simp
  qed
  with valid len len2 nth2 show ?thesis by simp
qed

text \<open>
  Claim C8, amended. When a hostname is configured and the \<open>img\<close> field of the
  entry is truthy, normalization replaces a string by a one-element array holding a
  new object with that url, rewritten by the rule of the primary url; it replaces an
  object by a one-element array holding that same object, and leaves an array as it
  is. Every object of the array is an object of the store, and each object that occurs
  once in the array and is not itself listed under \<open>links\<close> has its url rewritten
  by the rule of the primary url, whatever else the array and \<open>links\<close> hold.
\<close>

theorem img_promotion:
  assumes "truthy hn" and "normalize hn elem h = Inr (smi, h')"
    and "img (to_smi elem) = Some v" and "img_truthy v"
  shows "(\<forall>s. v = ImgStr s \<longrightarrow>
            img smi = Some (ImgNew \<lparr>sub_url = primary_rule (js_string hn) s, sub_props = []\<rparr>)) \<and>
         (\<forall>a. v = ImgObj a \<longrightarrow> img smi = Some (ImgArr [a])) \<and>
         (\<forall>as. v = ImgArr as \<longrightarrow> img smi = Some (ImgArr as)) \<and>
         (\<forall>a \<in> set (img_addrs v).
            a < length h \<and> length h' = length h \<and>
            (count_list (img_addrs v) a = 1 \<and>
             a \<notin> set (case links (to_smi elem) of None \<Rightarrow> [] | Some ls \<Rightarrow> ls) \<longrightarrow>
               h' ! a = (h ! a)\<lparr>sub_url := primary_rule (js_string hn) (sub_url (h ! a))\<rparr>))"
proof -
  from normalize_img_steps [OF assms] obtain v' h2 where
    ji: "join_img (js_string hn) (promote_img v) h = Inr (v', h2)"
    and im: "img smi = Some v'"
    by blast
  note val = join_img_value [OF ji]
  have str: "img smi = Some (ImgNew \<lparr>sub_url = primary_rule (js_string hn) s, sub_props = []\<rparr>)"
    if "v = ImgStr s" for s
    using that im val by simp
  have obj: "img smi = Some (ImgArr [a])" if "v = ImgObj a" for a
    using that im val by simp
  have arr: "img smi = Some (ImgArr as)" if "v = ImgArr as" for as
    using that im val by simp
  note store = normalize_img_store [OF assms]
  from str obj arr store show ?thesis by blast
qed

text \<open>An array of two objects, the second of which is also a link: the first is
  rewritten by the rule, the second is rewritten twice.\<close>

theorem img_promotion_witness:
  "truthy (Some ''h.com'') \<and>
   normalize (Some ''h.com'')
     (Obj \<lparr>url = ''/page'', img = Some (ImgArr [0, 1]), links = Some [1], props = []\<rparr>)
     [\<lparr>sub_url = ''a.png'', sub_props = []\<rparr>, \<lparr>sub_url = ''b.png'', sub_props = []\<rparr>] =
     Inr (\<lparr>url = ''h.com/page'', img = Some (ImgArr [0, 1]), links = Some [1], props = []\<rparr>,
          [\<lparr>sub_url = ''h.com/a.png'', sub_props = []\<rparr>,
           \<lparr>sub_url = ''h.com/h.com/b.png'', sub_props = []\<rparr>]) \<and>
   count_list (img_addrs (ImgArr [0, 1])) 0 = 1 \<and> 0 \<notin> set [1 :: nat] \<and>
   primary_rule (js_string (Some ''h.com'')) ''a.png'' = ''h.com/a.png''"
proof -
  let ?e = "Obj \<lparr>url = ''/page'', img = Some (ImgArr [0, 1]), links = Some [1], props = []\<rparr>"
  let ?h = "[\<lparr>sub_url = ''a.png'', sub_props = []\<rparr>, \<lparr>sub_url = ''b.png'', sub_props = []\<rparr>]"
  have t: "truthy (Some ''h.com'')" by (simp add: truthy_def)
  have n: "normalize (Some ''h.com'') ?e ?h =
     Inr (\<lparr>url = ''h.com/page'', img = Some (ImgArr [0, 1]), links = Some [1], props = []\<rparr>,
          [\<lparr>sub_url = ''h.com/a.png'', sub_props = []\<rparr>,
           \<lparr>sub_url = ''h.com/h.com/b.png'', sub_props = []\<rparr>])"
    by (simp add: normalize_def normalize_img_def normalize_links_def normalize_url_def
        promote_img_def join_img_def join_url_def truthy_def js_string_def urljoin_def
        strip_trailing_def strip_leading_def ieq_def)
  have i: "img (to_smi ?e) = Some (ImgArr [0, 1])" by simp
  have v: "img_truthy (ImgArr [0, 1])" by simp
  have p: "primary_rule (js_string (Some ''h.com'')) ''a.png'' = ''h.com/a.png''"
    by (simp add: primary_rule_def js_string_def urljoin_def strip_trailing_def
        strip_leading_def ieq_def)
  from img_promotion [OF t n i v] t n p show ?thesis by simp
qed

text \<open>
  Claim C8 as stated fails without a hostname: line 202 guards the whole block, and
  the string stays a string.
\<close>

theorem img_promotion_counterexample:
  "normalize None
     (Obj \<lparr>url = ''/page'', img = Some (ImgStr ''a.png''), links = None, props = []\<rparr>) [] =
   Inr (\<lparr>url = ''/page'', img = Some (ImgStr ''a.png''), links = None, props = []\<rparr>, [])"
  by (simp add: normalize_def truthy_def)

text \<open>
  Claim C9 at a failing input: the caller's image object at address 0 has the url
  \<open>''/a.png''\<close> before the normalization and \<open>''http://example.com/a.png''\<close>
  after it. The copy of line 199 is shallow, and line 218 assigns to the shared object.
\<close>

theorem nested_object_mutated:
  "normalize (Some ''http://example.com'')
     (Obj \<lparr>url = ''/page'', img = Some (ImgObj 0), links = None, props = []\<rparr>)
     [\<lparr>sub_url = ''/a.png'', sub_props = []\<rparr>] =
   Inr (\<lparr>url = ''http://example.com/page'', img = Some (ImgArr [0]), links = None, props = []\<rparr>,
        [\<lparr>sub_url = ''http://example.com/a.png'', sub_props = []\<rparr>])"
  by (simp add: normalize_def normalize_img_def normalize_links_def normalize_url_def
      promote_img_def join_img_def join_url_def truthy_def js_string_def urljoin_def
      strip_trailing_def strip_leading_def ieq_def)

section \<open>The cache, deletion and the target folder\<close>

lemma toString_valid:
  "isCacheValid s now \<Longrightarrow> toString ev s r h now now' = Inr (cache s, s, prepare_root s r, h)"
  by (simp add: toString_def)

lemma toString_miss:
  assumes "\<not> isCacheValid s now" and "toString ev s r h now now' = Inr (out, s1, r1, h1)"
  shows "s1 = s\<lparr>cache := out, cacheSetTimestamp := Some now'\<rparr>"
  using assms by (auto simp: toString_def setCache_def split: sum.splits prod.splits)

lemma toString_cache:
  assumes "toString ev s r h now now' = Inr (out, s1, r1, h1)"
  shows "cache s1 = out \<and> cacheResetPeriod s1 = cacheResetPeriod s"
  using assms by (auto simp: toString_def setCache_def split: if_splits sum.splits prod.splits)

text \<open>
  Claim C4, amended. For a period that is not negative, \<open>isCacheValid\<close> is true
  if and only if the period is positive, the cache is a non-empty string and the
  current time is at most the timestamp of the cache plus the period. When it is
  true, \<open>toString\<close> returns the cached string and leaves the fields of the object
  and the store as they are, while the root is prepared once more (lines 171-188 run
  before the cache is tested); so a render made while the cache is valid returns the
  string of the render before it. With a positive period, a render that recomputed a
  non-empty document and stored it at time \<open>now'\<close> is followed by the same string
  for every render up to \<open>now' + cacheResetPeriod\<close>, of any object that has the
  cache, the timestamp and the period of the object as that render left it, whatever
  its entries, its root and the store are. \<open>add\<close> and \<open>del\<close> leave the cache, the
  timestamp and the period as they are.
\<close>

theorem cache_validity:
  assumes "0 \<le> cacheResetPeriod s"
  shows "(isCacheValid s now \<longleftrightarrow>
            0 < cacheResetPeriod s \<and> cache s \<noteq> [] \<and>
            (\<exists>ts. cacheSetTimestamp s = Some ts \<and> now \<le> ts + cacheResetPeriod s)) \<and>
         (isCacheValid s now \<longrightarrow>
            toString ev s r h now now' = Inr (cache s, s, prepare_root s r, h)) \<and>
         (\<forall>out s1 r1 h1 t2 t2'.
            toString ev s r h now now' = Inr (out, s1, r1, h1) \<and> isCacheValid s1 t2 \<longrightarrow>
            toString ev s1 r1 h1 t2 t2' = Inr (out, s1, prepare_root s1 r1, h1)) \<and>
         (\<forall>out s1 r1 h1 s2 r2 h2 t2 t2'.
            toString ev s r h now now' = Inr (out, s1, r1, h1) \<and> \<not> isCacheValid s now \<and>
            out \<noteq> [] \<and> 0 < cacheResetPeriod s \<and> t2 \<le> now' + cacheResetPeriod s \<and>
            cache s2 = cache s1 \<and> cacheSetTimestamp s2 = cacheSetTimestamp s1 \<and>
            cacheResetPeriod s2 = cacheResetPeriod s1 \<longrightarrow>
            toString ev s2 r2 h2 t2 t2' = Inr (out, s2, prepare_root s2 r2, h2)) \<and>
         (\<forall>e. cache (snd (add e s)) = cache s \<and>
              cacheSetTimestamp (snd (add e s)) = cacheSetTimestamp s \<and>
              cacheResetPeriod (snd (add e s)) = cacheResetPeriod s \<and>
              cache (snd (del e s)) = cache s \<and>
              cacheSetTimestamp (snd (del e s)) = cacheSetTimestamp s \<and>
              cacheResetPeriod (snd (del e s)) = cacheResetPeriod s)"
proof -
  have iff: "isCacheValid s now \<longleftrightarrow>
            0 < cacheResetPeriod s \<and> cache s \<noteq> [] \<and>
            (\<exists>ts. cacheSetTimestamp s = Some ts \<and> now \<le> ts + cacheResetPeriod s)"
    using assms by (auto simp: isCacheValid_def split: option.splits)
  have again: "toString ev s1 r1 h1 t2 t2' = Inr (out, s1, prepare_root s1 r1, h1)"
    if "toString ev s r h now now' = Inr (out, s1, r1, h1)" and "isCacheValid s1 t2"
    for out s1 r1 h1 t2 t2'
    using toString_valid [OF that(2), of ev r1 h1 t2'] toString_cache [OF that(1)] by simp
  have fresh: "toString ev s2 r2 h2 t2 t2' = Inr (out, s2, prepare_root s2 r2, h2)"
    if "toString ev s r h now now' = Inr (out, s1, r1, h1)" and "\<not> isCacheValid s now"
      and "out \<noteq> []" and "0 < cacheResetPeriod s" and "t2 \<le> now' + cacheResetPeriod s"
      and "cache s2 = cache s1" and "cacheSetTimestamp s2 = cacheSetTimestamp s1"
      and "cacheResetPeriod s2 = cacheResetPeriod s1"
    for out s1 r1 h1 s2 r2 h2 t2 t2'
  proof -
    from toString_miss [OF that(2,1)] that(3-8)
    have "isCacheValid s2 t2" and "cache s2 = out" by (simp_all add: isCacheValid_def)
    with toString_valid [of s2 t2 ev r2 h2 t2'] show ?thesis by simp
  qed
  have keep: "cache (snd (add e s)) = cache s \<and>
              cacheSetTimestamp (snd (add e s)) = cacheSetTimestamp s \<and>
              cacheResetPeriod (snd (add e s)) = cacheResetPeriod s \<and>
              cache (snd (del e s)) = cache s \<and>
              cacheSetTimestamp (snd (del e s)) = cacheSetTimestamp s \<and>
              cacheResetPeriod (snd (del e s)) = cacheResetPeriod s" for e
    by (simp add: add_def del_def Let_def)
  from iff toString_valid [of s now ev r h now'] again fresh keep show ?thesis by blast
qed

text \<open>A cache filled at time 0 with a period of 10, read at time 5: the string
  comes from the cache, and the root is prepared again.\<close>

theorem cache_validity_witness:
  "0 \<le> cacheResetPeriod \<lparr>limit = 50000, hostname = None, urls = [Str ''a''], cacheResetPeriod = 10,
           cache = ''a'', cacheSetTimestamp = Some 0, xslUrl = None, xmlNs = None\<rparr> \<and>
   isCacheValid \<lparr>limit = 50000, hostname = None, urls = [Str ''a''], cacheResetPeriod = 10,
           cache = ''a'', cacheSetTimestamp = Some 0, xslUrl = None, xmlNs = None\<rparr> 5 \<and>
   toString \<lparr>buildXML = (\<lambda>h smi. Inr (url smi)),
             root_end = (\<lambda>r. concat (children r)),
             gzipSync = (\<lambda>s. s)\<rparr>
      \<lparr>limit = 50000, hostname = None, urls = [Str ''a''], cacheResetPeriod = 10,
           cache = ''a'', cacheSetTimestamp = Some 0, xslUrl = None, xmlNs = None\<rparr>
      \<lparr>attributes = default_namespaces, children = [''a''], instructions = []\<rparr> [] 5 6 =
     Inr (''a'', \<lparr>limit = 50000, hostname = None, urls = [Str ''a''], cacheResetPeriod = 10,
           cache = ''a'', cacheSetTimestamp = Some 0, xslUrl = None, xmlNs = None\<rparr>,
          \<lparr>attributes = default_namespaces, children = [], instructions = []\<rparr>, [])"
proof -
  let ?s = "\<lparr>limit = 50000, hostname = None, urls = [Str ''a''], cacheResetPeriod = 10,
           cache = ''a'', cacheSetTimestamp = Some 0, xslUrl = None, xmlNs = None\<rparr>"
  let ?ev = "\<lparr>buildXML = (\<lambda>h smi. Inr (url smi)),
             root_end = (\<lambda>r. concat (children r)),
             gzipSync = (\<lambda>s. s)\<rparr>"
  let ?r = "\<lparr>attributes = default_namespaces, children = [''a''], instructions = []\<rparr>"
  have p: "0 \<le> cacheResetPeriod ?s" by simp
  note c = cache_validity [OF p, where now = 5 and ev = ?ev and r = ?r and h = "[]" and now' = 6]
  from c have v: "isCacheValid ?s 5" by simp
  have r: "prepare_root ?s ?r =
      \<lparr>attributes = default_namespaces, children = [], instructions = []\<rparr>"
    by (simp add: prepare_root_def truthy_def att_def default_namespaces_def)
  from c v have "toString ?ev ?s ?r [] 5 6 = Inr (cache ?s, ?s, prepare_root ?s ?r, [])"
    by blast
  with p v r show ?thesis by simp
qed

text \<open>
  Claim C4 as stated fails: \<open>add\<close> does not clear the cache. A document with a
  period of 10 is rendered at time 0; a url is added; the render at time 5 is served
  from the cache, the render at time 12 is recomputed. The two renders are 7 apart,
  nothing happened between them, and they differ.
\<close>

theorem cache_validity_counterexample:
  "Sitemap (UrlArray [Str ''a'']) None (Some 10) None None =
     Inr \<lparr>limit = 50000, hostname = None, urls = [Str ''a''], cacheResetPeriod = 10,
          cache = [], cacheSetTimestamp = None, xslUrl = None, xmlNs = None\<rparr> \<and>
   Sitemap_root None = \<lparr>attributes = [], children = [], instructions = []\<rparr> \<and>
   toString \<lparr>buildXML = (\<lambda>h smi. Inr (url smi)),
             root_end = (\<lambda>r. concat (children r)),
             gzipSync = (\<lambda>s. s)\<rparr>
      \<lparr>limit = 50000, hostname = None, urls = [Str ''a''], cacheResetPeriod = 10,
       cache = [], cacheSetTimestamp = None, xslUrl = None, xmlNs = None\<rparr>
      \<lparr>attributes = [], children = [], instructions = []\<rparr> [] 0 0 =
     Inr (''a'', \<lparr>limit = 50000, hostname = None, urls = [Str ''a''], cacheResetPeriod = 10,
                 cache = ''a'', cacheSetTimestamp = Some 0, xslUrl = None, xmlNs = None\<rparr>,
          \<lparr>attributes = default_namespaces, children = [''a''], instructions = []\<rparr>, []) \<and>
   add (Str ''b'')
      \<lparr>limit = 50000, hostname = None, urls = [Str ''a''], cacheResetPeriod = 10,
       cache = ''a'', cacheSetTimestamp = Some 0, xslUrl = None, xmlNs = None\<rparr> =
     (2, \<lparr>limit = 50000, hostname = None, urls = [Str ''a'', Str ''b''], cacheResetPeriod = 10,
          cache = ''a'', cacheSetTimestamp = Some 0, xslUrl = None, xmlNs = None\<rparr>) \<and>
   toString \<lparr>buildXML = (\<lambda>h smi. Inr (url smi)),
             root_end = (\<lambda>r. concat (children r)),
             gzipSync = (\<lambda>s. s)\<rparr>
      \<lparr>limit = 50000, hostname = None, urls = [Str ''a'', Str ''b''], cacheResetPeriod = 10,
       cache = ''a'', cacheSetTimestamp = Some 0, xslUrl = None, xmlNs = None\<rparr>
      \<lparr>attributes = default_namespaces, children = [''a''], instructions = []\<rparr> [] 5 5 =
     Inr (''a'', \<lparr>limit = 50000, hostname = None, urls = [Str ''a'', Str ''b''], cacheResetPeriod = 10,
                 cache = ''a'', cacheSetTimestamp = Some 0, xslUrl = None, xmlNs = None\<rparr>,
          \<lparr>attributes = default_namespaces, children = [], instructions = []\<rparr>, []) \<and>
   toString \<lparr>buildXML = (\<lambda>h smi. Inr (url smi)),
             root_end = (\<lambda>r. concat (children r)),
             gzipSync = (\<lambda>s. s)\<rparr>
      \<lparr>limit = 50000, hostname = None, urls = [Str ''a'', Str ''b''], cacheResetPeriod = 10,
       cache = ''a'', cacheSetTimestamp = Some 0, xslUrl = None, xmlNs = None\<rparr>
      \<lparr>attributes = default_namespaces, children = [], instructions = []\<rparr> [] 12 12 =
     Inr (''ab'', \<lparr>limit = 50000, hostname = None, urls = [Str ''a'', Str ''b''], cacheResetPeriod = 10,
                  cache = ''ab'', cacheSetTimestamp = Some 12, xslUrl = None, xmlNs = None\<rparr>,
          \<lparr>attributes = default_namespaces, children = [''a'', ''b''], instructions = []\<rparr>, []) \<and>
   (12 :: int) - 5 \<le> 10 \<and> ''a'' \<noteq> ''ab''"
  by (simp add: Sitemap_def Sitemap_root_def xmlNs_ok_def add_def toString_def isCacheValid_def
      setCache_def normalize_def truthy_def prepare_root_def att_def default_namespaces_def)

text \<open>
  Why the statement about a recomputed render needs a positive period. With the period 0 the cache
  is never valid and every render recomputes; the first render rewrites the url of the
  caller's image object (line 218), and the second render joins the hostname to the
  rewritten url once more. Here the two renders happen at the same time 7, with
  nothing in between. The element of an entry is here the urls of its images.
\<close>

lemma render_twice_period_zero:
  "Sitemap (UrlArray [Obj \<lparr>url = ''/p'', img = Some (ImgObj 0), links = None, props = []\<rparr>])
      (Some ''h.com'') None None None =
     Inr \<lparr>limit = 50000, hostname = Some ''h.com'',
          urls = [Obj \<lparr>url = ''/p'', img = Some (ImgObj 0), links = None, props = []\<rparr>],
          cacheResetPeriod = 0, cache = [], cacheSetTimestamp = None,
          xslUrl = None, xmlNs = None\<rparr> \<and>
   toString \<lparr>buildXML = (\<lambda>h smi. Inr (concat (map (\<lambda>a. sub_url (h ! a))
                                     (case img smi of None \<Rightarrow> [] | Some v \<Rightarrow> img_addrs v)))),
             root_end = (\<lambda>r. concat (children r)),
             gzipSync = (\<lambda>s. s)\<rparr>
      \<lparr>limit = 50000, hostname = Some ''h.com'',
       urls = [Obj \<lparr>url = ''/p'', img = Some (ImgObj 0), links = None, props = []\<rparr>],
       cacheResetPeriod = 0, cache = [], cacheSetTimestamp = None,
       xslUrl = None, xmlNs = None\<rparr>
      \<lparr>attributes = [], children = [], instructions = []\<rparr>
      [\<lparr>sub_url = ''a.png'', sub_props = []\<rparr>] 7 7 =
     Inr (''h.com/a.png'',
          \<lparr>limit = 50000, hostname = Some ''h.com'',
           urls = [Obj \<lparr>url = ''/p'', img = Some (ImgObj 0), links = None, props = []\<rparr>],
           cacheResetPeriod = 0, cache = ''h.com/a.png'', cacheSetTimestamp = Some 7,
           xslUrl = None, xmlNs = None\<rparr>,
          \<lparr>attributes = default_namespaces, children = [''h.com/a.png''], instructions = []\<rparr>,
          [\<lparr>sub_url = ''h.com/a.png'', sub_props = []\<rparr>]) \<and>
   toString \<lparr>buildXML = (\<lambda>h smi. Inr (concat (map (\<lambda>a. sub_url (h ! a))
                                     (case img smi of None \<Rightarrow> [] | Some v \<Rightarrow> img_addrs v)))),
             root_end = (\<lambda>r. concat (children r)),
             gzipSync = (\<lambda>s. s)\<rparr>
      \<lparr>limit = 50000, hostname = Some ''h.com'',
       urls = [Obj \<lparr>url = ''/p'', img = Some (ImgObj 0), links = None, props = []\<rparr>],
       cacheResetPeriod = 0, cache = ''h.com/a.png'', cacheSetTimestamp = Some 7,
       xslUrl = None, xmlNs = None\<rparr>
      \<lparr>attributes = default_namespaces, children = [''h.com/a.png''], instructions = []\<rparr>
      [\<lparr>sub_url = ''h.com/a.png'', sub_props = []\<rparr>] 7 7 =
     Inr (''h.com/h.com/a.png'',
          \<lparr>limit = 50000, hostname = Some ''h.com'',
           urls = [Obj \<lparr>url = ''/p'', img = Some (ImgObj 0), links = None, props = []\<rparr>],
           cacheResetPeriod = 0, cache = ''h.com/h.com/a.png'', cacheSetTimestamp = Some 7,
           xslUrl = None, xmlNs = None\<rparr>,
          \<lparr>attributes = default_namespaces, children = [''h.com/h.com/a.png''],
           instructions = []\<rparr>,
          [\<lparr>sub_url = ''h.com/h.com/a.png'', sub_props = []\<rparr>])"
  by (simp add: Sitemap_def xmlNs_ok_def toString_def isCacheValid_def setCache_def
      normalize_def normalize_img_def normalize_links_def normalize_url_def promote_img_def
      join_img_def join_url_def truthy_def js_string_def urljoin_def strip_trailing_def
      strip_leading_def ieq_def prepare_root_def att_def default_namespaces_def)

text \<open>
  Claim C3 at failing inputs. After two adds of the same url, \<open>del\<close> returns 2 and
  one occurrence is left: the second \<open>splice\<close> uses the index 1 of the array before
  the first \<open>splice\<close>, which is past the end of the array after it. With other entries
  in between, the second \<open>splice\<close> removes an entry that does not match.
\<close>

theorem del_shifted_indices:
  "Sitemap NoUrls None None None None =
     Inr \<lparr>limit = 50000, hostname = None, urls = [], cacheResetPeriod = 0,
          cache = [], cacheSetTimestamp = None, xslUrl = None, xmlNs = None\<rparr> \<and>
   add (Str ''page1'')
     \<lparr>limit = 50000, hostname = None, urls = [], cacheResetPeriod = 0,
      cache = [], cacheSetTimestamp = None, xslUrl = None, xmlNs = None\<rparr> =
     (1, \<lparr>limit = 50000, hostname = None, urls = [Str ''page1''], cacheResetPeriod = 0,
          cache = [], cacheSetTimestamp = None, xslUrl = None, xmlNs = None\<rparr>) \<and>
   add (Str ''page1'')
     \<lparr>limit = 50000, hostname = None, urls = [Str ''page1''], cacheResetPeriod = 0,
      cache = [], cacheSetTimestamp = None, xslUrl = None, xmlNs = None\<rparr> =
     (2, \<lparr>limit = 50000, hostname = None, urls = [Str ''page1'', Str ''page1''], cacheResetPeriod = 0,
          cache = [], cacheSetTimestamp = None, xslUrl = None, xmlNs = None\<rparr>) \<and>
   del (Str ''page1'')
     \<lparr>limit = 50000, hostname = None, urls = [Str ''page1'', Str ''page1''], cacheResetPeriod = 0,
      cache = [], cacheSetTimestamp = None, xslUrl = None, xmlNs = None\<rparr> =
     (2, \<lparr>limit = 50000, hostname = None, urls = [Str ''page1''], cacheResetPeriod = 0,
          cache = [], cacheSetTimestamp = None, xslUrl = None, xmlNs = None\<rparr>) \<and>
   del (Str ''a'')
     \<lparr>limit = 50000, hostname = None, urls = [Str ''a'', Str ''b'', Str ''a'', Str ''c''],
      cacheResetPeriod = 0, cache = [], cacheSetTimestamp = None, xslUrl = None, xmlNs = None\<rparr> =
     (2, \<lparr>limit = 50000, hostname = None, urls = [Str ''b'', Str ''a''],
          cacheResetPeriod = 0, cache = [], cacheSetTimestamp = None, xslUrl = None, xmlNs = None\<rparr>)"
  by (simp add: Sitemap_def xmlNs_ok_def truthy_def add_def del_def index_to_remove_def splice1_def
      upt_rec [of 0] upt_rec [of 1] upt_rec [of 2] upt_rec [of 3] upt_rec [of "Suc 0"] Let_def)

text \<open>
  Claim C7 at failing inputs. For a path that does not exist, and for a path that is
  not a directory when the raised object has no constructor of its own, the
  constructor raises a TypeError, not \<open>UndefinedTargetFolder\<close>: inside
  \<open>catch (err)\<close> the name \<open>err\<close> is the caught object.
\<close>

theorem target_check_raises_TypeError:
  "SitemapIndex own (\<lambda>p. None) [] (UrlArray [Str ''a'']) ''/nonexistent''
      None None None 50000 None False True = Inl TypeError \<and>
   SitemapIndex False (\<lambda>p. Some NotDirectory) [] (UrlArray [Str ''a'']) ''/etc/passwd''
      None None None 50000 None False True = Inl TypeError"
  by (simp add: SitemapIndex_def check_target_def try_body_def catch_clause_def)

end
